(* ===== verification/LF_Prelude.thy ===== *)
theory LF_Prelude
  imports Main "HOL-Library.AList" "HOL-Library.Multiset" "HOL-Library.List_Lexorder" "HOL-Library.Char_ord"
begin

section \<open>Prelude: shared collections, list and association-list lemmas\<close>

text \<open>
  What the component theories share. Go maps that the program ranges over are association
  lists with distinct keys (\<^const>\<open>AList.update\<close> is the assignment \<open>m[k] = v\<close>); Go maps
  that are only looked up are HOL maps. Fallible functions return a sum whose left component
  is the error; a function that returns only an \<open>error\<close> returns an option, \<^const>\<open>None\<close>
  being \<open>nil\<close>.
\<close>

named_theorems ledger_simps \<open>equations of the balance arithmetic\<close>
named_theorems go_string_simps \<open>evaluation of string predicates on literals\<close>
named_theorems store_simps \<open>reads of the relational store after a write\<close>

subsection \<open>The error monad\<close>

definition bindE :: "'e + 'a \<Rightarrow> ('a \<Rightarrow> 'e + 'b) \<Rightarrow> 'e + 'b" where
  "bindE m f = (case m of Inl e \<Rightarrow> Inl e | Inr a \<Rightarrow> f a)"

lemma bindE_simps [simp]:
  "bindE (Inl e) f = Inl e"
  "bindE (Inr a) f = f a"
  by (simp_all add: bindE_def)

lemma bindE_Inr_iff:
  "bindE m f = Inr b \<longleftrightarrow> (\<exists>a. m = Inr a \<and> f a = Inr b)"
  by (cases m) auto

lemma bindE_Inl_iff:
  "bindE m f = Inl e \<longleftrightarrow> m = Inl e \<or> (\<exists>a. m = Inr a \<and> f a = Inl e)"
  by (cases m) auto

text \<open>\<open>guardE\<close> is the \<open>if err := f(); err != nil { return err }\<close> of the source.\<close>

definition guardE :: "'e option \<Rightarrow> ('e + 'a) \<Rightarrow> 'e + 'a" where
  "guardE e k = (case e of None \<Rightarrow> k | Some x \<Rightarrow> Inl x)"

lemma guardE_simps [simp]:
  "guardE None k = k"
  "guardE (Some e) k = Inl e"
  by (simp_all add: guardE_def)

lemma guardE_Inr_iff: "guardE e k = Inr b \<longleftrightarrow> e = None \<and> k = Inr b"
  by (cases e) auto

fun first_error :: "'e option list \<Rightarrow> 'e option" where
  "first_error [] = None"
| "first_error (Some e # es) = Some e"
| "first_error (None # es) = first_error es"

lemma first_error_None_iff: "first_error es = None \<longleftrightarrow> (\<forall>e \<in> set es. e = None)"
  by (induction es rule: first_error.induct) auto

subsection \<open>Sums over association lists\<close>

definition asum :: "('k \<times> int) list \<Rightarrow> int" where
  "asum al = sum_list (map snd al)"

lemma asum_simps [simp]:
  "asum [] = 0"
  "asum (p # al) = snd p + asum al"
  by (simp_all add: asum_def)

lemma asum_append [simp]: "asum (xs @ ys) = asum xs + asum ys"
  by (simp add: asum_def)

lemma asum_update_new:
  "k \<notin> fst ` set al \<Longrightarrow> asum (AList.update k v al) = asum al + v"
  by (induction al) auto

lemma asum_update_old:
  "distinct (map fst al) \<Longrightarrow> map_of al k = Some w \<Longrightarrow>
   asum (AList.update k v al) = asum al - w + v"
proof (induction al)
  case (Cons p al)
  then show ?case by (cases "fst p = k") auto
qed simp

lemma sum_list_map_perm:
  assumes "mset xs = mset ys"
  shows "sum_list (map f xs) = (sum_list (map f ys) :: 'a :: comm_monoid_add)"
proof -
  have "sum_list (map f xs) = sum_mset (mset (map f xs))" "sum_list (map f ys) = sum_mset (mset (map f ys))"
    by (simp_all only: sum_mset_sum_list)
  then show ?thesis by (simp only: mset_map assms)
qed

lemma sum_list_map_zero: "(\<And>x. x \<in> set xs \<Longrightarrow> f x = (0 :: 'a :: comm_monoid_add)) \<Longrightarrow> sum_list (map f xs) = 0"
  by (induction xs) simp_all

lemma sum_list_map_cong: "(\<And>x. x \<in> set xs \<Longrightarrow> f x = g x) \<Longrightarrow> sum_list (map f xs) = sum_list (map g xs)"
  by (simp cong: map_cong)

lemma sum_list_map_concat: "sum_list (map f (concat xss)) = sum_list (map (\<lambda>xs. sum_list (map f xs)) xss)"
  for f :: "'b \<Rightarrow> 'a :: monoid_add"
  by (induction xss) (simp_all)

lemma sum_list_map_replace:
  fixes f :: "'b \<Rightarrow> 'a :: ab_group_add"
  assumes "distinct (map key xs)" "b \<in> set xs"
  shows "sum_list (map f (map (\<lambda>x. if key x = key b then g x else x) xs)) = sum_list (map f xs) - f b + f (g b)"
  using assms
proof (induction xs)
  case (Cons x xs)
  show ?case
  proof (cases "x = b")
    case True
    with Cons.prems(1) have "map (\<lambda>x. if key x = key b then g x else x) xs = xs"
      by (intro map_idI) (auto simp: image_iff)
    with True show ?thesis by simp
  next
    case False
    with Cons.prems have "b \<in> set xs" "key x \<noteq> key b" by (auto simp: image_iff)
    with Cons show ?thesis by (simp add: algebra_simps)
  qed
qed simp

lemma asum_perm: "mset xs = mset ys \<Longrightarrow> asum xs = asum ys"
  unfolding asum_def by (rule sum_list_map_perm)

lemma asum_nonneg: "\<forall>p \<in> set al. 0 \<le> snd p \<Longrightarrow> 0 \<le> asum al"
  by (induction al) auto

text \<open>The sum of a measure over the values of an association list.\<close>

definition fsum :: "('v \<Rightarrow> 'a) \<Rightarrow> ('k \<times> 'v) list \<Rightarrow> 'a :: ordered_ab_group_add" where
  "fsum f al = sum_list (map (\<lambda>p. f (snd p)) al)"

lemma fsum_simps [simp]:
  "fsum f [] = 0"
  "fsum f (p # al) = f (snd p) + fsum f al"
  by (simp_all add: fsum_def)

lemma fsum_append [simp]: "fsum f (xs @ ys) = fsum f xs + fsum f ys"
  by (simp add: fsum_def)

lemma fsum_nonneg: "\<forall>p \<in> set al. 0 \<le> f (snd p) \<Longrightarrow> 0 \<le> fsum f al"
  by (induction al) (auto intro: add_nonneg_nonneg)

lemma fsum_perm: "mset xs = mset ys \<Longrightarrow> fsum f xs = fsum f ys"
  unfolding fsum_def by (rule sum_list_map_perm)

lemma fsum_fold:
  assumes "\<And>acc p. f (g p acc) = f acc + h (snd p)"
  shows "f (fold g xs z) = f z + fsum h xs"
  using assms by (induction xs arbitrary: z) (simp_all add: add.assoc)

lemma update_new: "k \<notin> fst ` set al \<Longrightarrow> AList.update k v al = al @ [(k, v)]"
  by (induction al) auto

lemma set_update_subset: "set (AList.update k v al) \<subseteq> insert (k, v) (set al)"
  by (induction al) auto

lemma keys_update_old: "k \<in> fst ` set al \<Longrightarrow> map fst (AList.update k v al) = map fst al"
  by (induction al) auto

lemma fsum_update_old:
  "map_of al k = Some w \<Longrightarrow> fsum f (AList.update k v al) = fsum f al - f w + f v"
proof (induction al)
  case (Cons p al)
  show ?case
  proof (cases "fst p = k")
    case False
    with Cons have "fsum f (AList.update k v al) = fsum f al - f w + f v" by (cases p) auto
    moreover have "f (snd p) + (fsum f al - f w + f v) = f (snd p) + fsum f al - f w + f v"
      by (simp only: add.assoc diff_conv_add_uminus)
    ultimately show ?thesis using False by (cases p) simp
  qed (use Cons in \<open>cases p, auto\<close>)
qed simp

lemma fold_update_new:
  assumes "distinct (map fst xs)" "fst ` set xs \<inter> fst ` set r = {}"
  shows "fold (\<lambda>(i, a) r. AList.update i (f a) r) xs r = r @ map (\<lambda>(i, a). (i, f a)) xs"
  using assms
proof (induction xs arbitrary: r)
  case (Cons p xs)
  obtain i a where p: "p = (i, a)" by (cases p)
  with Cons.prems have "i \<notin> fst ` set r" by auto
  then have upd: "AList.update i (f a) r = r @ [(i, f a)]" by (rule update_new)
  have "fst ` set xs \<inter> fst ` set (r @ [(i, f a)]) = {}" using Cons.prems p by force
  with Cons.IH [of "r @ [(i, f a)]"] Cons.prems(1) show ?case by (simp add: p upd)
qed simp

end
