(* ===== verification/Go_Lang.thy ===== *)
theory Go_Lang
  imports LF_Prelude "HOL-Library.Word" "HOL-Library.Log_Nat" Complex_Main
begin

section \<open>The parts of Go and its standard library the sources use\<close>

text \<open>
  Error values, \<open>float64\<close>, the \<open>strings\<close> and \<open>strconv\<close> functions, decimal text of
  \<open>big.Int\<close>, \<open>time.Time\<close> in UTC with its RFC 3339 rendering, and SHA-256.
  A Go string is a list of bytes, which is what \<^typ>\<open>string\<close> is. Case mapping is the
  ASCII one: the sources apply it to identifiers and error texts, which are ASCII.
  A \<open>*big.Int\<close> is an \<^typ>\<open>int option\<close>, \<^const>\<open>None\<close> being the nil pointer.
\<close>

subsection \<open>Errors\<close>

text \<open>
  \<open>ErrorString\<close> is \<open>errors.New\<close> or \<open>fmt.Errorf\<close> without \<open>%w\<close>; \<open>WrapError\<close> is
  \<open>fmt.Errorf\<close> with \<open>%w\<close> and carries its whole text; \<open>PqError\<close> is the driver's error with
  its code, constraint and text; \<open>ErrNoRows\<close> is \<open>sql.ErrNoRows\<close>; \<open>APIErr\<close> is
  \<open>apierror.APIError\<close>, whose \<open>Details\<close> keep the cause without an \<open>Unwrap\<close> method;
  \<open>GoPanic\<close> is a run-time panic.
\<close>

datatype go_error =
    ErrorString string
  | WrapError string go_error
  | PqError string string string
  | ErrNoRows
  | APIErr string string "go_error option"
  | GoPanic string

fun Error :: "go_error \<Rightarrow> string" where
  "Error (ErrorString m) = m"
| "Error (WrapError m e) = m"
| "Error (PqError code con m) = m"
| "Error ErrNoRows = ''sql: no rows in result set''"
| "Error (APIErr code m d) = code @ '': '' @ m"
| "Error (GoPanic m) = m"

text \<open>\<open>fmt.Errorf("<msg>: %w", err)\<close>.\<close>

definition errorf_w :: "string \<Rightarrow> go_error \<Rightarrow> go_error" where
  "errorf_w msg e = WrapError (msg @ '': '' @ Error e) e"

text \<open>\<open>errors.Is\<close> and \<open>errors.As(err, &pqErr)\<close> follow \<open>Unwrap\<close>, which only \<open>%w\<close> errors have.\<close>

fun errors_Is :: "go_error \<Rightarrow> go_error \<Rightarrow> bool" where
  "errors_Is (WrapError m e) t = (WrapError m e = t \<or> errors_Is e t)"
| "errors_Is e t = (e = t)"

fun errors_As_pq :: "go_error \<Rightarrow> (string \<times> string) option" where
  "errors_As_pq (PqError code con m) = Some (code, con)"
| "errors_As_pq (WrapError m e) = errors_As_pq e"
| "errors_As_pq e = None"

fun errors_As_api :: "go_error \<Rightarrow> string option" where
  "errors_As_api (APIErr code m d) = Some code"
| "errors_As_api (WrapError m e) = errors_As_api e"
| "errors_As_api e = None"

lemma errors_Is_refl [simp]: "errors_Is e e"
  by (cases e) auto

lemma errors_Is_errorf_w [simp]: "errors_Is e t \<Longrightarrow> errors_Is (errorf_w m e) t"
  by (simp add: errorf_w_def)

lemma errors_As_pq_errorf_w [simp]: "errors_As_pq (errorf_w m e) = errors_As_pq e"
  by (simp add: errorf_w_def)

subsection \<open>Package strings\<close>

definition lower_char :: "char \<Rightarrow> char" where
  "lower_char c = (let n = of_char c :: nat in if 65 \<le> n \<and> n \<le> 90 then char_of (n + 32) else c)"

definition upper_char :: "char \<Rightarrow> char" where
  "upper_char c = (let n = of_char c :: nat in if 97 \<le> n \<and> n \<le> 122 then char_of (n - 32) else c)"

definition ToLower :: "string \<Rightarrow> string" where
  "ToLower s = map lower_char s"

definition ToUpper :: "string \<Rightarrow> string" where
  "ToUpper s = map upper_char s"

fun HasPrefix :: "string \<Rightarrow> string \<Rightarrow> bool" where
  "HasPrefix s [] = True"
| "HasPrefix [] (p # ps) = False"
| "HasPrefix (c # s) (p # ps) = (c = p \<and> HasPrefix s ps)"

definition HasSuffix :: "string \<Rightarrow> string \<Rightarrow> bool" where
  "HasSuffix s p = HasPrefix (rev s) (rev p)"

fun Contains :: "string \<Rightarrow> string \<Rightarrow> bool" where
  "Contains [] p = (p = [])"
| "Contains (c # s) p = (HasPrefix (c # s) p \<or> Contains s p)"

fun Join :: "string list \<Rightarrow> string \<Rightarrow> string" where
  "Join [] sep = []"
| "Join [x] sep = x"
| "Join (x # y # xs) sep = x @ sep @ Join (y # xs) sep"

lemma HasPrefix_iff: "HasPrefix s p \<longleftrightarrow> (\<exists>r. s = p @ r)"
  by (induction s p rule: HasPrefix.induct) auto

lemma HasSuffix_iff: "HasSuffix s p \<longleftrightarrow> (\<exists>r. s = r @ p)"
proof
  assume "HasSuffix s p"
  then obtain r where "rev s = rev p @ r" by (auto simp: HasSuffix_def HasPrefix_iff)
  then have "s = rev r @ p" by (metis rev_append rev_rev_ident)
  then show "\<exists>r. s = r @ p" by blast
qed (auto simp: HasSuffix_def HasPrefix_iff)

lemma HasPrefix_append [simp]: "HasPrefix (p @ r) p"
  by (auto simp: HasPrefix_iff)

lemma Contains_iff: "Contains s p \<longleftrightarrow> (\<exists>a b. s = a @ p @ b)"
proof (induction s)
  case (Cons c s)
  have "(\<exists>a b. c # s = a @ p @ b) \<longleftrightarrow> (\<exists>b. c # s = p @ b) \<or> (\<exists>a b. s = a @ p @ b)"
    by (metis append_Cons append_Nil list.inject neq_Nil_conv)
  with Cons show ?case by (simp add: HasPrefix_iff del: HasPrefix.simps)
qed auto

lemma Contains_append1: "Contains s p \<Longrightarrow> Contains (r @ s) p"
  unfolding Contains_iff by (metis append_assoc)

lemma Contains_append2: "Contains s p \<Longrightarrow> Contains (s @ r) p"
  unfolding Contains_iff by (metis append_assoc)

lemma ToLower_append [simp]: "ToLower (a @ b) = ToLower a @ ToLower b"
  by (simp add: ToLower_def)

subsection \<open>Decimal text of integers (big.Int.String, SetString, strconv.Itoa)\<close>

definition digit_char :: "nat \<Rightarrow> char" where
  "digit_char d = char_of (48 + d)"

lemma digit_char_eval [go_string_simps]:
  "digit_char 0 = CHR ''0''"
  "digit_char (Suc 0) = CHR ''1''"
  "digit_char 2 = CHR ''2''"
  "digit_char 3 = CHR ''3''"
  "digit_char 4 = CHR ''4''"
  "digit_char 5 = CHR ''5''"
  "digit_char 6 = CHR ''6''"
  "digit_char 7 = CHR ''7''"
  "digit_char 8 = CHR ''8''"
  "digit_char 9 = CHR ''9''"
  by (simp_all add: digit_char_def char_of_def bit_0)

lemma digit_char_1 [go_string_simps]: "digit_char 1 = CHR ''1''"
  by (simp add: digit_char_def char_of_def bit_0)

definition is_digit :: "char \<Rightarrow> bool" where
  "is_digit c = (let n = of_char c :: nat in 48 \<le> n \<and> n \<le> 57)"

definition digit_val :: "char \<Rightarrow> nat" where
  "digit_val c = of_char c - 48"

fun show_nat :: "nat \<Rightarrow> string" where
  "show_nat n = (if n < 10 then [digit_char n] else show_nat (n div 10) @ [digit_char (n mod 10)])"

declare show_nat.simps [simp del]

definition show_int :: "int \<Rightarrow> string" where
  "show_int i = (if i < 0 then ''-'' @ show_nat (nat (- i)) else show_nat (nat i))"

definition digits_val :: "string \<Rightarrow> nat" where
  "digits_val s = foldl (\<lambda>acc c. acc * 10 + digit_val c) 0 s"

text \<open>\<open>new(big.Int).SetString(s, 10)\<close>: an optional sign and at least one digit.\<close>

definition SetString :: "string \<Rightarrow> int option" where
  "SetString s =
     (let (neg, ds) = (case s of
          [] \<Rightarrow> (False, [])
        | c # cs \<Rightarrow> if c = CHR ''-'' then (True, cs) else if c = CHR ''+'' then (False, cs) else (False, s))
      in if ds \<noteq> [] \<and> list_all is_digit ds
         then Some (if neg then - int (digits_val ds) else int (digits_val ds)) else None)"

lemma is_digit_digit_char [simp]: "d < 10 \<Longrightarrow> is_digit (digit_char d)"
  by (simp add: is_digit_def digit_char_def)

lemma digit_val_digit_char [simp]: "d < 10 \<Longrightarrow> digit_val (digit_char d) = d"
  by (simp add: digit_val_def digit_char_def)

lemma digits_val_snoc: "digits_val (s @ [c]) = digits_val s * 10 + digit_val c"
  by (simp add: digits_val_def)

lemma show_nat_nonempty [simp]: "show_nat n \<noteq> []"
  by (subst show_nat.simps) simp

lemma show_nat_digits [simp]: "list_all is_digit (show_nat n)"
proof (induction n rule: show_nat.induct)
  case (1 n)
  then show ?case by (cases "n < 10") (simp_all add: show_nat.simps [of n])
qed

lemma digits_val_show_nat [simp]: "digits_val (show_nat n) = n"
proof (induction n rule: show_nat.induct)
  case (1 n)
  show ?case
  proof (cases "n < 10")
    case True
    then show ?thesis by (simp add: show_nat.simps [of n] digits_val_def)
  next
    case False
    with 1 show ?thesis by (simp add: show_nat.simps [of n] digits_val_snoc)
  qed
qed

lemma digit_not_sign: "is_digit c \<Longrightarrow> c \<noteq> CHR ''-'' \<and> c \<noteq> CHR ''+''"
  by (auto simp: is_digit_def)

lemma SetString_show_int [simp]: "SetString (show_int i) = Some i"
proof (cases "i < 0")
  case True
  then show ?thesis by (simp add: SetString_def show_int_def)
next
  case False
  obtain c cs where c: "show_nat (nat i) = c # cs" by (cases "show_nat (nat i)") auto
  have "is_digit c" using show_nat_digits [of "nat i"] c by simp
  moreover have "digits_val (c # cs) = nat i" using c digits_val_show_nat [of "nat i"] by simp
  moreover have "list_all is_digit cs" using show_nat_digits [of "nat i"] c by simp
  ultimately show ?thesis
    using False c digit_not_sign [of c] by (simp add: SetString_def show_int_def)
qed

lemma show_int_inject [simp]: "show_int i = show_int j \<longleftrightarrow> i = j"
  by (metis SetString_show_int option.inject)

lemma show_int_nonempty [simp]: "show_int i \<noteq> []"
  by (simp add: show_int_def)

subsection \<open>float64\<close>

text \<open>
  A finite \<open>float64\<close> is its exact rational value. The two zeros are one value: no function
  of the sources distinguishes them. Comparisons with NaN are false, as in Go.
\<close>

datatype float64 = NaN | PosInf | NegInf | Fin rat

fun f64_less :: "float64 \<Rightarrow> float64 \<Rightarrow> bool" where
  "f64_less (Fin a) (Fin b) = (a < b)"
| "f64_less (Fin a) PosInf = True"
| "f64_less NegInf (Fin b) = True"
| "f64_less NegInf PosInf = True"
| "f64_less a b = False"

fun f64_eq :: "float64 \<Rightarrow> float64 \<Rightarrow> bool" where
  "f64_eq (Fin a) (Fin b) = (a = b)"
| "f64_eq PosInf PosInf = True"
| "f64_eq NegInf NegInf = True"
| "f64_eq a b = False"

definition f64_leq :: "float64 \<Rightarrow> float64 \<Rightarrow> bool" where
  "f64_leq a b = (f64_less a b \<or> f64_eq a b)"

definition f64_zero :: float64 where
  "f64_zero = Fin 0"

definition IsNaN :: "float64 \<Rightarrow> bool" where
  "IsNaN x = (x = NaN)"

text \<open>\<open>math.IsInf(x, 0)\<close>.\<close>

definition IsInf :: "float64 \<Rightarrow> bool" where
  "IsInf x = (x = PosInf \<or> x = NegInf)"

definition rat_trunc :: "rat \<Rightarrow> int" where
  "rat_trunc r = (if 0 \<le> r then \<lfloor>r\<rfloor> else - \<lfloor>- r\<rfloor>)"

fun Trunc :: "float64 \<Rightarrow> float64" where
  "Trunc (Fin r) = Fin (of_int (rat_trunc r))"
| "Trunc x = x"

lemma floor_rat_numeral [simp]: "\<lfloor>numeral a / numeral b :: rat\<rfloor> = numeral a div numeral b"
  using floor_divide_of_int_eq [of "numeral a" "numeral b", where 'a = rat] by simp

lemma rat_trunc_of_int [simp]: "rat_trunc (of_int n) = n"
  by (simp add: rat_trunc_def flip: of_int_minus)

lemma rat_trunc_nonneg: "0 \<le> r \<Longrightarrow> rat_trunc r = \<lfloor>r\<rfloor>"
  by (simp add: rat_trunc_def)

text \<open>
  Rounding to the nearest \<open>float64\<close>, ties to even, subnormals included; the largest finite
  magnitude is checked by the conversions that can exceed it.
\<close>

definition round_half_even :: "rat \<Rightarrow> int" where
  "round_half_even r =
     (let n = \<lfloor>r\<rfloor>; d = r - of_int n
      in if d < 1/2 then n else if d > 1/2 then n + 1 else if even n then n else n + 1)"

definition pow_rat :: "nat \<Rightarrow> int \<Rightarrow> rat" where
  "pow_rat b k = (if 0 \<le> k then of_nat b ^ nat k else 1 / (of_nat b ^ nat (- k)))"

text \<open>\<open>mag b r\<close> is the \<open>e\<close> with \<open>b ^ (e - 1) \<le> r < b ^ e\<close>, for positive \<open>r\<close>.\<close>

definition mag :: "nat \<Rightarrow> rat \<Rightarrow> int" where
  "mag b r =
     (if 1 \<le> r then int (floorlog b (nat \<lfloor>r\<rfloor>))
      else (let n = nat \<lceil>1 / r\<rceil> in if n \<le> 1 then 1 else 1 - int (floorlog b (n - 1))))"

definition f64_round_pos :: "rat \<Rightarrow> rat" where
  "f64_round_pos r =
     (let ulp = pow_rat 2 (max (mag 2 r - 53) (- 1074))
      in of_int (round_half_even (r / ulp)) * ulp)"

definition f64_round :: "rat \<Rightarrow> float64" where
  "f64_round r =
     (let v = (if r = 0 then 0 else if 0 < r then f64_round_pos r else - f64_round_pos (- r))
      in if v > (2 - pow_rat 2 (- 52)) * pow_rat 2 1023 then PosInf
         else if v < - ((2 - pow_rat 2 (- 52)) * pow_rat 2 1023) then NegInf else Fin v)"

text \<open>
  \<open>strconv.FormatFloat(x, 'f', -1, 64)\<close>: the shortest digits that round back to \<open>x\<close>,
  the nearer one when two of that length do.
\<close>

fun shortest_digits :: "nat \<Rightarrow> nat \<Rightarrow> rat \<Rightarrow> int \<times> int" where
  "shortest_digits fuel n r =
     (let e = mag 10 r; sc = pow_rat 10 (int n - e);
          lo = \<lfloor>r * sc\<rfloor>; hi = lo + 1;
          back = (\<lambda>d. f64_round_pos (of_int d / sc) = r);
          lo_near = (r * sc - of_int lo < 1/2 \<or> (r * sc - of_int lo = 1/2 \<and> even lo))
      in (case fuel of
            0 \<Rightarrow> (round_half_even (r * sc), e - int n)
          | Suc fuel' \<Rightarrow>
              if 0 < lo \<and> back lo \<and> (lo_near \<or> \<not> back hi) then (lo, e - int n)
              else if back hi then (hi, e - int n)
              else shortest_digits fuel' (Suc n) r))"

declare shortest_digits.simps [simp del]

fun strip_zeros :: "nat \<Rightarrow> nat \<Rightarrow> nat \<times> nat" where
  "strip_zeros d 0 = (d, 0)"
| "strip_zeros d (Suc k) = (if d mod 10 = 0 then strip_zeros (d div 10) k else (d, Suc k))"

lemma strip_zeros_numeral:
  "strip_zeros d (numeral k) =
     (if d mod 10 = 0 then strip_zeros (d div 10) (pred_numeral k) else (d, numeral k))"
  using strip_zeros.simps(2) [of d "pred_numeral k"] by (simp only: numeral_eq_Suc [of k, symmetric])

definition pad_left :: "nat \<Rightarrow> string \<Rightarrow> string" where
  "pad_left w s = replicate (w - length s) CHR ''0'' @ s"

text \<open>The plain decimal text of \<open>d / 10^k\<close>, trailing zeros of the fraction dropped.\<close>

definition plain_decimal :: "nat \<Rightarrow> nat \<Rightarrow> string" where
  "plain_decimal d k =
     (let (m, j) = strip_zeros d k; s = pad_left (Suc j) (show_nat m)
      in if j = 0 then s else take (length s - j) s @ ''.'' @ drop (length s - j) s)"

definition FormatFloat_pos :: "rat \<Rightarrow> string" where
  "FormatFloat_pos r =
     (let (d, e) = shortest_digits 16 1 r
      in if 0 \<le> e then show_nat (nat d) @ replicate (nat e) CHR ''0''
         else plain_decimal (nat d) (nat (- e)))"

fun FormatFloat :: "float64 \<Rightarrow> string" where
  "FormatFloat NaN = ''NaN''"
| "FormatFloat PosInf = ''+Inf''"
| "FormatFloat NegInf = ''-Inf''"
| "FormatFloat (Fin r) =
     (if r = 0 then ''0'' else if 0 < r then FormatFloat_pos r else ''-'' @ FormatFloat_pos (- r))"

text \<open>\<open>fmt.Sprintf("%.0f", x)\<close>.\<close>

fun sprintf_f0 :: "float64 \<Rightarrow> string" where
  "sprintf_f0 NaN = ''NaN''"
| "sprintf_f0 PosInf = ''+Inf''"
| "sprintf_f0 NegInf = ''-Inf''"
| "sprintf_f0 (Fin r) =
     (if r < 0 then ''-'' @ show_int (round_half_even (- r)) else show_int (round_half_even r))"

lemma round_half_even_of_int [simp]: "round_half_even (of_int n) = n"
  by (simp add: round_half_even_def)

lemma sprintf_f0_int: "0 \<le> n \<Longrightarrow> sprintf_f0 (Fin (of_int n)) = show_int n"
  by simp

subsection \<open>time.Time in UTC\<close>

text \<open>
  A \<open>time.Time\<close> is its instant, in nanoseconds since 1970-01-01T00:00:00Z: the sources take
  \<open>UTC()\<close> before they store, compare or render one.
\<close>

type_synonym time = int

definition zero_time :: time where
  "zero_time = - 62135596800 * 10 ^ 9"

definition ns_per_day :: int where
  "ns_per_day = 86400 * 10 ^ 9"

text \<open>Year, month and day of a day number (days since 1970-01-01), proleptic Gregorian.\<close>

definition civil_from_days :: "int \<Rightarrow> int \<times> int \<times> int" where
  "civil_from_days z0 =
     (let z = z0 + 719468; era = z div 146097; doe = z mod 146097;
          yoe = (doe - doe div 1460 + doe div 36524 - doe div 146096) div 365;
          doy = doe - (365 * yoe + yoe div 4 - yoe div 100);
          mp = (5 * doy + 2) div 153;
          d = doy - (153 * mp + 2) div 5 + 1;
          m = (if mp < 10 then mp + 3 else mp - 9);
          y = yoe + era * 400
      in (if m \<le> 2 then y + 1 else y, m, d))"

definition pad_int :: "nat \<Rightarrow> int \<Rightarrow> string" where
  "pad_int w i = (if i < 0 then ''-'' @ pad_left w (show_nat (nat (- i))) else pad_left w (show_nat (nat i)))"

text \<open>\<open>t.UTC().Format(time.RFC3339Nano)\<close>.\<close>

definition Format_RFC3339Nano :: "time \<Rightarrow> string" where
  "Format_RFC3339Nano t =
     (let secs = t div 10 ^ 9; ns = t mod 10 ^ 9;
          sod = secs mod 86400; (y, m, d) = civil_from_days (secs div 86400);
          (f, j) = strip_zeros (nat ns) 9
      in pad_int 4 y @ ''-'' @ pad_int 2 m @ ''-'' @ pad_int 2 d @ ''T'' @
         pad_int 2 (sod div 3600) @ '':'' @ pad_int 2 (sod div 60 mod 60) @ '':'' @ pad_int 2 (sod mod 60) @
         (if j = 0 then [] else ''.'' @ pad_left j (show_nat f)) @ ''Z'')"

text \<open>\<open>t.UTC().Truncate(24 * time.Hour)\<close>: the start of the UTC day.\<close>

definition utc_day :: "time \<Rightarrow> time" where
  "utc_day t = t div ns_per_day * ns_per_day"

end
