(* ===== verification/Decimal_Api.thy ===== *)
theory Decimal_Api
  imports Go_Lang
begin

section \<open>The decimal package as an interface\<close>

text \<open>
  \<open>github.com/shopspring/decimal\<close> is not part of the repository. The functions of it that
  the sources call are the fields of \<open>decimal_api\<close>, over an abstract type \<open>'d\<close> of decimals;
  every definition that uses the package takes such a record as its first argument.
  The locale \<open>decimal_lib\<close> states the documented behaviour the sources rely on: the exact
  ring operations, comparison, truncation to an integer, rounding half away from zero, and
  the value of a parsed text. \<open>dec_ops\<close> is a concrete implementation of the interface as
  coefficient and exponent, on which the locale is interpreted.
\<close>

record 'd decimal_api =
  dNewFromString :: "string \<Rightarrow> go_error + 'd"
  dNewFromFloat :: "float64 \<Rightarrow> 'd"
  dNewFromBigInt :: "int \<Rightarrow> 'd"
  dMul :: "'d \<Rightarrow> 'd \<Rightarrow> 'd"
  dAdd :: "'d \<Rightarrow> 'd \<Rightarrow> 'd"
  dSub :: "'d \<Rightarrow> 'd \<Rightarrow> 'd"
  dShift :: "'d \<Rightarrow> int \<Rightarrow> 'd"
  dRound :: "'d \<Rightarrow> int \<Rightarrow> 'd"
  dDivRound :: "'d \<Rightarrow> 'd \<Rightarrow> int \<Rightarrow> 'd"
  dCmp :: "'d \<Rightarrow> 'd \<Rightarrow> int"
  dSign :: "'d \<Rightarrow> int"
  dAbs :: "'d \<Rightarrow> 'd"
  dIsZero :: "'d \<Rightarrow> bool"
  dBigInt :: "'d \<Rightarrow> int"
  dExponent :: "'d \<Rightarrow> int"
  dString :: "'d \<Rightarrow> string"
  dFloat64 :: "'d \<Rightarrow> float64"

subsection \<open>Values of decimal texts\<close>

text \<open>
  The texts are those of \<open>[+-]? (digits [. digits*] | . digits) ([eE] [+-]? digits)?\<close>;
  \<open>split_decimal\<close> takes one apart into sign, integer digits, fraction digits and exponent.
\<close>

definition take_digits :: "string \<Rightarrow> string \<times> string" where
  "take_digits s = (takeWhile is_digit s, dropWhile is_digit s)"

definition take_sign :: "string \<Rightarrow> bool \<times> string" where
  "take_sign s = (case s of
       [] \<Rightarrow> (False, [])
     | c # cs \<Rightarrow> if c = CHR ''-'' then (True, cs) else if c = CHR ''+'' then (False, cs) else (False, s))"

definition take_exponent :: "string \<Rightarrow> int option" where
  "take_exponent s = (case s of
       [] \<Rightarrow> Some 0
     | c # cs \<Rightarrow>
         if c = CHR ''e'' \<or> c = CHR ''E'' then
           (let (neg, t) = take_sign cs
            in if t \<noteq> [] \<and> list_all is_digit t
               then Some (if neg then - int (digits_val t) else int (digits_val t)) else None)
         else None)"

definition split_decimal :: "string \<Rightarrow> (bool \<times> string \<times> string \<times> int) option" where
  "split_decimal s =
     (let (neg, s1) = take_sign s; (ip, s2) = take_digits s1;
          (fp, s3) = (case s2 of c # cs \<Rightarrow> if c = CHR ''.'' then take_digits cs else ([], s2) | [] \<Rightarrow> ([], []))
      in if ip = [] \<and> fp = [] then None
         else (case take_exponent s3 of None \<Rightarrow> None | Some e \<Rightarrow> Some (neg, ip, fp, e)))"

definition pow10 :: "int \<Rightarrow> rat" where
  "pow10 k = (if 0 \<le> k then 10 ^ nat k else 1 / 10 ^ nat (- k))"

definition decimal_value :: "string \<Rightarrow> rat option" where
  "decimal_value s = (case split_decimal s of
       None \<Rightarrow> None
     | Some (neg, ip, fp, e) \<Rightarrow>
         Some ((if neg then -1 else 1) * of_nat (digits_val (ip @ fp)) * pow10 (e - int (length fp))))"

lemma pow10_pos [simp]: "0 < pow10 k"
  by (simp add: pow10_def)

lemma pow10_neq0 [simp]: "pow10 k \<noteq> 0"
  by (simp add: pow10_def)

lemma pow10_0 [simp]: "pow10 0 = 1"
  by (simp add: pow10_def)

lemma pow10_add: "pow10 (a + b) = pow10 a * pow10 b"
proof -
  have *: "pow10 k = 10 powi k" for k
    by (simp add: pow10_def power_int_def field_simps)
  show ?thesis by (simp add: * power_int_add)
qed

lemma pow10_nonneg_int: "0 \<le> k \<Longrightarrow> pow10 k = of_int (10 ^ nat k)"
  by (simp add: pow10_def)

subsection \<open>Rounding half away from zero\<close>

definition round_half_away :: "rat \<Rightarrow> int" where
  "round_half_away r = (if 0 \<le> r then \<lfloor>r + 1/2\<rfloor> else - \<lfloor>- r + 1/2\<rfloor>)"

lemma floor_half [simp]: "\<lfloor>of_int n + (1/2 :: rat)\<rfloor> = n"
  by (rule floor_unique) simp_all

lemma round_half_away_of_int [simp]: "round_half_away (of_int n) = n"
proof -
  have "\<lfloor>- of_int n + (1/2 :: rat)\<rfloor> = - n"
    using floor_half [of "- n"] by (simp del: floor_half)
  then show ?thesis using floor_half [of n] by (simp add: round_half_away_def del: floor_half)
qed

lemma round_half_away_pos_iff: "0 \<le> r \<Longrightarrow> 0 < round_half_away r \<longleftrightarrow> 1/2 \<le> r"
  by (simp add: round_half_away_def) linarith

lemma round_half_away_error: "\<bar>of_int (round_half_away r) - r\<bar> \<le> 1/2"
proof (cases "0 \<le> r")
  case True
  then have eq: "round_half_away r = \<lfloor>r + 1/2\<rfloor>" by (simp add: round_half_away_def)
  show ?thesis unfolding eq by linarith
next
  case False
  then have eq: "round_half_away r = - \<lfloor>- r + 1/2\<rfloor>" by (simp add: round_half_away_def)
  show ?thesis unfolding eq by linarith
qed

subsection \<open>The contract\<close>

locale decimal_lib =
  fixes D :: "'d decimal_api"
    and val :: "'d \<Rightarrow> rat"
  assumes val_NewFromBigInt: "val (dNewFromBigInt D n) = of_int n"
    and val_NewFromString:
      "dNewFromString D s = Inr d \<Longrightarrow> decimal_value s = Some v \<Longrightarrow> val d = v"
    and NewFromString_int: "\<exists>d. dNewFromString D (show_int n) = Inr d"
    and val_NewFromFloat:
      "\<bar>n\<bar> \<le> 2 ^ 53 \<Longrightarrow> val (dNewFromFloat D (Fin (of_int n))) = of_int n"
    and NewFromFloat_nonneg: "0 \<le> r \<Longrightarrow> 0 \<le> val (dNewFromFloat D (Fin r))"
    and val_Mul: "val (dMul D a b) = val a * val b"
    and val_Add: "val (dAdd D a b) = val a + val b"
    and val_Sub: "val (dSub D a b) = val a - val b"
    and val_Shift: "val (dShift D a k) = val a * pow10 k"
    and val_Round0: "val (dRound D a 0) = of_int (round_half_away (val a))"
    and val_DivRound:
      "val b \<noteq> 0 \<Longrightarrow> val (dDivRound D a b p) = of_int (round_half_away (val a / val b * pow10 p)) / pow10 p"
    and Sign_val: "dSign D a = (if val a < 0 then -1 else if val a = 0 then 0 else 1)"
    and Cmp_val: "dCmp D a b = (if val a < val b then -1 else if val a = val b then 0 else 1)"
    and val_Abs: "val (dAbs D a) = \<bar>val a\<bar>"
    and IsZero_val: "dIsZero D a \<longleftrightarrow> val a = 0"
    and BigInt_val: "dBigInt D a = rat_trunc (val a)"
    and String_val: "decimal_value (dString D a) = Some (val a)"
begin

lemma Sign_pos_iff: "0 < dSign D a \<longleftrightarrow> 0 < val a"
  by (auto simp: Sign_val)

lemma Sign_neg_iff: "dSign D a < 0 \<longleftrightarrow> val a < 0"
  by (auto simp: Sign_val)

lemma Sign_nonpos_iff: "dSign D a \<le> 0 \<longleftrightarrow> val a \<le> 0"
  using Sign_pos_iff [of a] by linarith

lemma Sign_zero_iff: "dSign D a = 0 \<longleftrightarrow> val a = 0"
  using Sign_pos_iff [of a] Sign_neg_iff [of a] by linarith

lemma Cmp_gt_iff: "0 < dCmp D a b \<longleftrightarrow> val b < val a"
  by (auto simp: Cmp_val)

lemma Cmp_lt_iff: "dCmp D a b < 0 \<longleftrightarrow> val a < val b"
  by (auto simp: Cmp_val)

lemma Cmp_eq_iff: "dCmp D a b = 0 \<longleftrightarrow> val a = val b"
  by (auto simp: Cmp_val)

lemmas val_ring = val_NewFromBigInt val_Mul val_Add val_Sub val_Shift

lemma val_integer_text:
  "dNewFromString D (show_int n) = Inr d \<Longrightarrow> decimal_value (show_int n) = Some (of_int n) \<Longrightarrow> val d = of_int n"
  by (rule val_NewFromString)

lemma BigInt_Round0: "dBigInt D (dRound D a 0) = round_half_away (val a)"
  by (simp add: BigInt_val val_Round0)

end

subsection \<open>An implementation: coefficient and exponent\<close>

type_synonym dec = "int \<times> int"

definition dec_val :: "dec \<Rightarrow> rat" where
  "dec_val a = of_int (fst a) * pow10 (snd a)"

definition dec_NewFromString :: "string \<Rightarrow> go_error + dec" where
  "dec_NewFromString s = (case split_decimal s of
       None \<Rightarrow> Inl (ErrorString (''can't convert '' @ s @ '' to decimal''))
     | Some (neg, ip, fp, e) \<Rightarrow>
         Inr ((if neg then - int (digits_val (ip @ fp)) else int (digits_val (ip @ fp))), e - int (length fp)))"

fun dec_NewFromFloat :: "float64 \<Rightarrow> dec" where
  "dec_NewFromFloat (Fin r) =
     (if of_int (rat_trunc r) = r then (rat_trunc r, 0)
      else if 0 < r then shortest_digits 16 1 r
      else (let (d, e) = shortest_digits 16 1 (- r) in (- d, e)))"
| "dec_NewFromFloat x = (0, 0)"

definition dec_addc :: "int \<Rightarrow> int \<Rightarrow> int \<Rightarrow> int \<Rightarrow> dec" where
  "dec_addc c1 e1 c2 e2 =
     (if e1 \<le> e2 then (c1 + c2 * 10 ^ nat (e2 - e1), e1) else (c1 * 10 ^ nat (e1 - e2) + c2, e2))"

definition dec_Add :: "dec \<Rightarrow> dec \<Rightarrow> dec" where
  "dec_Add a b = dec_addc (fst a) (snd a) (fst b) (snd b)"

definition dec_Sub :: "dec \<Rightarrow> dec \<Rightarrow> dec" where
  "dec_Sub a b = dec_addc (fst a) (snd a) (- fst b) (snd b)"

definition dec_Mul :: "dec \<Rightarrow> dec \<Rightarrow> dec" where
  "dec_Mul a b = (fst a * fst b, snd a + snd b)"

definition dec_Shift :: "dec \<Rightarrow> int \<Rightarrow> dec" where
  "dec_Shift a k = (fst a, snd a + k)"

definition dec_Round :: "dec \<Rightarrow> int \<Rightarrow> dec" where
  "dec_Round a k = (round_half_away (dec_val a * pow10 k), - k)"

definition dec_DivRound :: "dec \<Rightarrow> dec \<Rightarrow> int \<Rightarrow> dec" where
  "dec_DivRound a b k = (round_half_away (dec_val a / dec_val b * pow10 k), - k)"

definition dec_Cmp :: "dec \<Rightarrow> dec \<Rightarrow> int" where
  "dec_Cmp a b = (if dec_val a < dec_val b then -1 else if dec_val a = dec_val b then 0 else 1)"

definition dec_String :: "dec \<Rightarrow> string" where
  "dec_String a =
     (if 0 \<le> snd a then show_int (fst a * 10 ^ nat (snd a))
      else (if fst a < 0 then ''-'' else []) @ plain_decimal (nat \<bar>fst a\<bar>) (nat (- snd a)))"

definition dec_ops :: "dec decimal_api" where
  "dec_ops = \<lparr>dNewFromString = dec_NewFromString, dNewFromFloat = dec_NewFromFloat,
     dNewFromBigInt = (\<lambda>n. (n, 0)), dMul = dec_Mul, dAdd = dec_Add, dSub = dec_Sub,
     dShift = dec_Shift, dRound = dec_Round, dDivRound = dec_DivRound, dCmp = dec_Cmp,
     dSign = (\<lambda>a. sgn (fst a)), dAbs = (\<lambda>a. (\<bar>fst a\<bar>, snd a)), dIsZero = (\<lambda>a. fst a = 0),
     dBigInt = (\<lambda>a. rat_trunc (dec_val a)), dExponent = snd,
     dString = dec_String, dFloat64 = (\<lambda>a. f64_round (dec_val a))\<rparr>"

lemma dec_ops_sel:
  "dNewFromString dec_ops = dec_NewFromString" "dNewFromFloat dec_ops = dec_NewFromFloat"
  "dNewFromBigInt dec_ops n = (n, 0)" "dMul dec_ops = dec_Mul" "dAdd dec_ops = dec_Add" "dSub dec_ops = dec_Sub"
  "dShift dec_ops = dec_Shift" "dRound dec_ops = dec_Round" "dDivRound dec_ops = dec_DivRound"
  "dCmp dec_ops = dec_Cmp" "dSign dec_ops a = sgn (fst a)" "dAbs dec_ops a = (\<bar>fst a\<bar>, snd a)"
  "dIsZero dec_ops a = (fst a = 0)" "dBigInt dec_ops a = rat_trunc (dec_val a)" "dExponent dec_ops = snd"
  "dString dec_ops = dec_String"
  by (simp_all add: dec_ops_def)

lemma pow10_diff_int: "e1 \<le> e2 \<Longrightarrow> (10::rat) ^ nat (e2 - e1) * pow10 e1 = pow10 e2"
  using pow10_add [of "e2 - e1" e1] by (simp add: pow10_def [of "e2 - e1"])

lemma dec_val_addc:
  "dec_val (dec_addc c1 e1 c2 e2) = of_int c1 * pow10 e1 + of_int c2 * pow10 e2"
  using pow10_diff_int [of e1 e2] pow10_diff_int [of e2 e1]
  by (auto simp: dec_addc_def dec_val_def algebra_simps)

lemma pow10_minus: "pow10 (- k) = 1 / pow10 k"
  using pow10_add [of k "- k"] by (simp add: field_simps)

lemma strip_zeros_value:
  "strip_zeros d k = (m, j) \<Longrightarrow> (of_nat d :: rat) * pow10 (- int k) = of_nat m * pow10 (- int j)"
proof (induction d k arbitrary: m j rule: strip_zeros.induct)
  case (2 d k)
  show ?case
  proof (cases "d mod 10 = 0")
    case True
    with 2 have "(of_nat (d div 10) :: rat) * pow10 (- int k) = of_nat m * pow10 (- int j)" by simp
    moreover have d: "(of_nat d :: rat) = of_nat (d div 10) * 10"
      using True by (metis add.right_neutral div_mult_mod_eq of_nat_mult of_nat_numeral)
    moreover have k: "pow10 (- int (Suc k)) = pow10 (- int k) * (1/10)"
      using pow10_add [of "- int k" "- 1"] by (simp add: pow10_def [of "- 1"] algebra_simps)
    ultimately show ?thesis unfolding d k by simp
  qed (use 2 in auto)
qed auto

lemma digits_val_pad_left [simp]: "digits_val (pad_left w s) = digits_val s"
proof -
  have "foldl (\<lambda>acc c. acc * 10 + digit_val c) 0 (replicate n CHR ''0'') = 0" for n
    by (induction n) (simp_all add: digit_val_def)
  then show ?thesis by (simp add: digits_val_def pad_left_def)
qed

lemma pad_left_digits [simp]: "list_all is_digit s \<Longrightarrow> list_all is_digit (pad_left w s)"
  by (auto simp: pad_left_def list_all_iff is_digit_def)

lemma length_pad_left [simp]: "length (pad_left w s) = max w (length s)"
  by (simp add: pad_left_def)

lemma take_digits_app:
  "list_all is_digit ds \<Longrightarrow> (case r of [] \<Rightarrow> True | c # _ \<Rightarrow> \<not> is_digit c) \<Longrightarrow>
   take_digits (ds @ r) = (ds, r)"
  by (cases r) (auto simp: take_digits_def list_all_iff takeWhile_append2 dropWhile_append2)

lemma take_sign_digits:
  "ip \<noteq> [] \<Longrightarrow> list_all is_digit ip \<Longrightarrow> take_sign (ip @ r) = (False, ip @ r)"
  using digit_not_sign [of "hd ip"] by (cases ip) (auto simp: take_sign_def)

lemma split_decimal_plain:
  assumes "ip \<noteq> []" "list_all is_digit ip" "list_all is_digit fp"
  shows "split_decimal ((if neg then ''-'' else []) @ ip @ ''.'' @ fp) = Some (neg, ip, fp, 0)"
    and "split_decimal ((if neg then ''-'' else []) @ ip) = Some (neg, ip, [], 0)"
proof -
  have sgn: "take_sign ((if neg then ''-'' else []) @ ip @ r) = (neg, ip @ r)" for r
    using take_sign_digits [OF assms(1,2), of r] by (cases neg) (simp_all add: take_sign_def)
  have ipd: "take_digits (ip @ ''.'' @ fp) = (ip, ''.'' @ fp)"
    by (rule take_digits_app [OF assms(2)]) (simp add: is_digit_def)
  have ipd0: "take_digits ip = (ip, [])" and fpd: "take_digits fp = (fp, [])"
    using take_digits_app [OF assms(2), of "[]"] take_digits_app [OF assms(3), of "[]"] by simp_all
  show "split_decimal ((if neg then ''-'' else []) @ ip @ ''.'' @ fp) = Some (neg, ip, fp, 0)"
    unfolding split_decimal_def sgn Let_def prod.case ipd using assms(1) fpd
    by (simp add: take_exponent_def)
  show "split_decimal ((if neg then ''-'' else []) @ ip) = Some (neg, ip, [], 0)"
    using sgn [of "[]"] assms(1) ipd0 unfolding split_decimal_def Let_def
    by (simp add: take_exponent_def)
qed

lemma decimal_value_plain_decimal:
  "decimal_value ((if neg then ''-'' else []) @ plain_decimal d k) =
     Some ((if neg then -1 else 1) * of_nat d * pow10 (- int k))"
proof -
  obtain m j where mj: "strip_zeros d k = (m, j)" by (cases "strip_zeros d k")
  define s where "s = pad_left (Suc j) (show_nat m)"
  have dig: "list_all is_digit s" and len: "j < length s" and v: "digits_val s = m"
    by (simp_all add: s_def)
  have val: "(of_nat d :: rat) * pow10 (- int k) = of_nat m * pow10 (- int j)"
    using strip_zeros_value [OF mj] .
  show ?thesis
  proof (cases "j = 0")
    case True
    then have "plain_decimal d k = s" using mj by (simp add: plain_decimal_def s_def)
    then show ?thesis
      using split_decimal_plain(2) [of s "[]" neg] dig len v val True by (auto simp: decimal_value_def)
  next
    case False
    let ?n = "length s - j"
    have pd: "plain_decimal d k = take ?n s @ ''.'' @ drop ?n s"
      using mj False by (simp add: plain_decimal_def s_def Let_def)
    have "take ?n s \<noteq> []" using len by auto
    moreover have "list_all is_digit (take ?n s)" "list_all is_digit (drop ?n s)"
      using dig by (auto simp: list_all_iff dest: in_set_takeD in_set_dropD)
    ultimately show ?thesis
      using split_decimal_plain(1) [of "take ?n s" "drop ?n s" neg] pd len v val
      by (simp add: decimal_value_def)
  qed
qed

lemma decimal_value_show_int: "decimal_value (show_int n) = Some (of_int n)"
  using split_decimal_plain(2) [of "show_nat (nat \<bar>n\<bar>)" "[]" "n < 0"]
  by (auto simp: decimal_value_def show_int_def)

lemma decimal_value_dec_String: "decimal_value (dec_String a) = Some (dec_val a)"
proof (cases "0 \<le> snd a")
  case True
  then show ?thesis
    by (simp add: dec_String_def decimal_value_show_int dec_val_def pow10_def)
next
  case False
  then show ?thesis
    using decimal_value_plain_decimal [of "fst a < 0" "nat \<bar>fst a\<bar>" "nat (- snd a)"]
    by (auto simp: dec_String_def dec_val_def)
qed

lemma split_decimal_show_int: "split_decimal (show_int n) \<noteq> None"
  using decimal_value_show_int [of n] by (auto simp: decimal_value_def split: option.splits)

lemma shortest_digits_nonneg: "0 \<le> r \<Longrightarrow> 0 \<le> fst (shortest_digits fuel n r)"
proof (induction fuel arbitrary: n)
  case 0
  then have "0 \<le> r * pow_rat 10 (int n - mag 10 r)" by (simp add: pow_rat_def)
  then have "0 \<le> \<lfloor>r * pow_rat 10 (int n - mag 10 r)\<rfloor>" by simp
  then show ?case by (auto simp: shortest_digits.simps [of 0] round_half_even_def Let_def)
next
  case (Suc fuel)
  then have "0 \<le> \<lfloor>r * pow_rat 10 (int n - mag 10 r)\<rfloor>" by (simp add: pow_rat_def)
  with Suc show ?case by (auto simp: shortest_digits.simps [of "Suc fuel"] Let_def)
qed

lemma dec_NewFromFloat_nonneg:
  assumes "0 \<le> r"
  shows "0 \<le> dec_val (dec_NewFromFloat (Fin r))"
proof -
  have "0 \<le> fst (dec_NewFromFloat (Fin r))"
    using assms shortest_digits_nonneg [OF assms] by (auto simp: rat_trunc_def)
  then show ?thesis by (simp add: dec_val_def less_imp_le)
qed

interpretation decimal: decimal_lib dec_ops dec_val
proof unfold_locales
  fix r :: rat
  assume "0 \<le> r"
  then show "0 \<le> dec_val (dNewFromFloat dec_ops (Fin r))"
    using dec_NewFromFloat_nonneg by (simp add: dec_ops_def)
next
  fix n
  show "\<exists>d. dNewFromString dec_ops (show_int n) = Inr d"
    using split_decimal_show_int [of n] by (auto simp: dec_ops_def dec_NewFromString_def)
next
  fix s d v
  assume "dNewFromString dec_ops s = Inr d" and "decimal_value s = Some v"
  then show "dec_val d = v"
    by (auto simp: dec_ops_def dec_NewFromString_def decimal_value_def dec_val_def split: option.splits)
next
  fix a b :: dec
  show "dec_val (dAdd dec_ops a b) = dec_val a + dec_val b"
    by (simp add: dec_ops_def dec_Add_def dec_val_addc) (simp add: dec_val_def)
  show "dec_val (dSub dec_ops a b) = dec_val a - dec_val b"
    by (simp add: dec_ops_def dec_Sub_def dec_val_addc) (simp add: dec_val_def)
  show "dec_val (dMul dec_ops a b) = dec_val a * dec_val b"
    by (simp add: dec_ops_def dec_Mul_def dec_val_def pow10_add)
next
  fix a show "dSign dec_ops a = (if dec_val a < 0 then - 1 else if dec_val a = 0 then 0 else 1)"
    using pow10_pos [of "snd a"] order.asym [OF pow10_pos [of "snd a"]]
    by (auto simp: dec_ops_def dec_val_def sgn_if mult_less_0_iff simp del: pow10_pos)
next
  fix a show "dec_val (dAbs dec_ops a) = \<bar>dec_val a\<bar>"
    by (simp add: dec_ops_def dec_val_def abs_mult abs_of_pos)
qed (auto simp: dec_ops_def dec_val_def dec_Shift_def pow10_add dec_Round_def dec_DivRound_def
      dec_Cmp_def pow10_minus decimal_value_dec_String)

end
