(* ===== verification/Model_Types.thy ===== *)
theory Model_Types
  imports Decimal_Api
begin

section \<open>The data model (package model)\<close>

text \<open>
  The structs of \<open>src/model\<close>, field by field. A \<open>*big.Int\<close> is an \<^typ>\<open>int option\<close>, a
  \<open>*time.Time\<close> a \<^typ>\<open>time option\<close>, a \<open>map[string]interface{}\<close> an optional association
  list (\<^const>\<open>None\<close> is the nil map). The \<open>Identity\<close> and \<open>Ledger\<close> pointers of \<open>Balance\<close>,
  which only the read API fills in, are left out.
\<close>

datatype json =
    JNull
  | JBool bool
  | JNum float64
  | JStr string
  | JArr "json list"
  | JObj "(string \<times> json) list"

type_synonym metadata = "(string \<times> json) list"

subsection \<open>Distribution, Transaction (model/transaction.go)\<close>

record Distribution =
  di_Identifier :: string
  di_Distribution :: string
  di_PreciseDistribution :: string
  di_TransactionID :: string

record Transaction =
  tx_ParentKind :: string
  tx_QueuedParent :: string
  tx_QueueLane :: string
  tx_ShadowFor :: string
  tx_ReservedMetadata :: "metadata option"
  tx_Rate :: float64
  tx_ID :: int
  tx_PreciseAmount :: "int option"
  tx_Amount :: float64
  tx_AmountString :: string
  tx_Precision :: float64
  tx_OverdraftLimit :: float64
  tx_TransactionID :: string
  tx_ParentTransaction :: string
  tx_Source :: string
  tx_Destination :: string
  tx_Reference :: string
  tx_Currency :: string
  tx_Description :: string
  tx_Status :: string
  tx_QueueAction :: string
  tx_Hash :: string
  tx_AllowOverdraft :: bool
  tx_Inflight :: bool
  tx_SkipBalanceUpdate :: bool
  tx_SkipQueue :: bool
  tx_Atomic :: bool
  tx_GroupIds :: "string list option"
  tx_Sources :: "Distribution list option"
  tx_Destinations :: "Distribution list option"
  tx_CreatedAt :: time
  tx_EffectiveDate :: "time option"
  tx_ScheduledFor :: time
  tx_InflightExpiryDate :: time
  tx_InflightCommitDate :: time
  tx_MetaData :: "metadata option"

text \<open>The zero value of the struct, from which composite literals are built.\<close>

definition zero_Transaction :: Transaction where
  "zero_Transaction = \<lparr>
     tx_ParentKind = [], tx_QueuedParent = [], tx_QueueLane = [], tx_ShadowFor = [],
     tx_ReservedMetadata = None, tx_Rate = Fin 0, tx_ID = 0, tx_PreciseAmount = None,
     tx_Amount = Fin 0, tx_AmountString = [], tx_Precision = Fin 0, tx_OverdraftLimit = Fin 0,
     tx_TransactionID = [], tx_ParentTransaction = [], tx_Source = [], tx_Destination = [],
     tx_Reference = [], tx_Currency = [], tx_Description = [], tx_Status = [],
     tx_QueueAction = [], tx_Hash = [], tx_AllowOverdraft = False, tx_Inflight = False,
     tx_SkipBalanceUpdate = False, tx_SkipQueue = False, tx_Atomic = False,
     tx_GroupIds = None, tx_Sources = None, tx_Destinations = None,
     tx_CreatedAt = zero_time, tx_EffectiveDate = None, tx_ScheduledFor = zero_time,
     tx_InflightExpiryDate = zero_time, tx_InflightCommitDate = zero_time, tx_MetaData = None\<rparr>"

subsection \<open>Balance, AlertCondition, BalanceMonitor (model/balance.go)\<close>

record Balance =
  bal_CurrencyMultiplier :: float64
  bal_ID :: int
  bal_Balance :: "int option"
  bal_Version :: int
  bal_InflightBalance :: "int option"
  bal_CreditBalance :: "int option"
  bal_InflightCreditBalance :: "int option"
  bal_DebitBalance :: "int option"
  bal_InflightDebitBalance :: "int option"
  bal_QueuedDebitBalance :: "int option"
  bal_QueuedCreditBalance :: "int option"
  bal_LedgerID :: string
  bal_IdentityID :: string
  bal_BalanceID :: string
  bal_Indicator :: string
  bal_Currency :: string
  bal_CreatedAt :: time
  bal_InflightExpiresAt :: time
  bal_MetaData :: "metadata option"
  bal_TrackFundLineage :: bool
  bal_AllocationStrategy :: string

definition zero_Balance :: Balance where
  "zero_Balance = \<lparr>
     bal_CurrencyMultiplier = Fin 0, bal_ID = 0, bal_Balance = None, bal_Version = 0,
     bal_InflightBalance = None, bal_CreditBalance = None, bal_InflightCreditBalance = None,
     bal_DebitBalance = None, bal_InflightDebitBalance = None, bal_QueuedDebitBalance = None,
     bal_QueuedCreditBalance = None, bal_LedgerID = [], bal_IdentityID = [], bal_BalanceID = [],
     bal_Indicator = [], bal_Currency = [], bal_CreatedAt = zero_time,
     bal_InflightExpiresAt = zero_time, bal_MetaData = None, bal_TrackFundLineage = False,
     bal_AllocationStrategy = []\<rparr>"

record AlertCondition =
  ac_Value :: float64
  ac_Precision :: float64
  ac_PreciseValue :: "int option"
  ac_Field :: string
  ac_Operator :: string

record BalanceMonitor =
  bm_MonitorID :: string
  bm_BalanceID :: string
  bm_Description :: string
  bm_CallBackURL :: string
  bm_CreatedAt :: time
  bm_Condition :: AlertCondition

record ExternalTransaction =
  et_ID :: string
  et_Amount :: float64
  et_Reference :: string
  et_Currency :: string
  et_Description :: string
  et_Date :: time
  et_Source :: string

record LineageMapping =
  lm_ID :: int
  lm_BalanceID :: string
  lm_Provider :: string
  lm_ShadowBalanceID :: string
  lm_AggregateBalanceID :: string
  lm_IdentityID :: string
  lm_CreatedAt :: time

subsection \<open>Statuses (core/transaction.go, core/transaction_inflight.go)\<close>

definition StatusQueued :: string where "StatusQueued = ''QUEUED''"
definition StatusApplied :: string where "StatusApplied = ''APPLIED''"
definition StatusScheduled :: string where "StatusScheduled = ''SCHEDULED''"
definition StatusRejected :: string where "StatusRejected = ''REJECTED''"
definition StatusInflight :: string where "StatusInflight = ''INFLIGHT''"
definition StatusVoid :: string where "StatusVoid = ''VOID''"
definition StatusCommit :: string where "StatusCommit = ''COMMIT''"

lemmas status_defs = StatusQueued_def StatusApplied_def StatusScheduled_def StatusRejected_def
  StatusInflight_def StatusVoid_def StatusCommit_def

end
