(* ===== verification/Amount.thy ===== *)
theory Amount
  imports Model_Types
begin

section \<open>Exact amounts (model/amount.go and the precision half of model/model.go)\<close>

text \<open>
  Parsing of major-unit decimals into integer minor units, the validation of the monetary
  fields of a transaction, and the two-way conversion between \<open>PreciseAmount\<close> and
  \<open>Amount\<close>/\<open>AmountString\<close>. The decimal package is the argument \<open>D\<close>. A method on
  \<open>*Transaction\<close> takes the transaction and returns the updated one.
\<close>

subsection \<open>Definitions\<close>

definition ValidatePrecision :: "float64 \<Rightarrow> go_error option" where
  "ValidatePrecision p =
     (if IsNaN p \<or> IsInf p \<or> f64_less p f64_zero \<or> \<not> f64_eq (Trunc p) p
      then Some (ErrorString ''precision must be a finite positive integer (or zero for the default)'')
      else None)"

definition monetaryDecimalPattern :: "string \<Rightarrow> bool" where
  "monetaryDecimalPattern text = (split_decimal text \<noteq> None)"

definition parseMonetaryDecimal :: "'d decimal_api \<Rightarrow> string \<Rightarrow> go_error + 'd" where
  "parseMonetaryDecimal D text =
     (if 4096 < int (length text) then Inl (ErrorString ''decimal input exceeds 4096 characters'')
      else if \<not> monetaryDecimalPattern text then Inl (ErrorString ''invalid decimal format'')
      else bindE (dNewFromString D text) (\<lambda>value.
        if dExponent D value < -4096 \<or> 4096 < dExponent D value
        then Inl (ErrorString ''decimal exponent exceeds supported range'')
        else Inr value))"

definition ParseAmount :: "'d decimal_api \<Rightarrow> string \<Rightarrow> float64 \<Rightarrow> go_error + int" where
  "ParseAmount D amount precision0 =
     guardE (ValidatePrecision precision0)
       (let precision = (if f64_eq precision0 f64_zero then Fin 1 else precision0)
        in case parseMonetaryDecimal D amount of
             Inl _ \<Rightarrow> Inl (ErrorString ''invalid decimal amount'')
           | Inr value \<Rightarrow>
               if dSign D value \<le> 0 then Inl (ErrorString ''transaction amount must be positive'')
               else (let minor = dBigInt D (dRound D (dMul D value (dNewFromFloat D precision)) 0)
                     in if minor \<le> 0
                        then Inl (ErrorString ''transaction amount rounds to zero minor units'')
                        else Inr minor))"

definition validateMonetaryFields :: "'d decimal_api \<Rightarrow> Transaction option \<Rightarrow> go_error option" where
  "validateMonetaryFields D transaction = (case transaction of
       None \<Rightarrow> Some (ErrorString ''transaction is required'')
     | Some t \<Rightarrow>
         if f64_less (tx_Amount t) f64_zero
         then Some (ErrorString ''transaction amount must be positive'')
         else if IsNaN (tx_Amount t) \<or> IsInf (tx_Amount t)
         then Some (ErrorString ''transaction amount must be finite and positive'')
         else if tx_AmountString t \<noteq> [] \<and>
           (case parseMonetaryDecimal D (tx_AmountString t) of Inl _ \<Rightarrow> True | Inr value \<Rightarrow> dSign D value < 0)
         then Some (ErrorString ''transaction decimal amount must be finite and non-negative'')
         else (case ValidatePrecision (tx_Precision t) of
             Some e \<Rightarrow> Some e
           | None \<Rightarrow>
               if IsNaN (tx_Rate t) \<or> IsInf (tx_Rate t) \<or> f64_less (tx_Rate t) f64_zero
               then Some (ErrorString ''rate must be finite and positive (or zero for the default)'')
               else if IsNaN (tx_OverdraftLimit t) \<or> IsInf (tx_OverdraftLimit t)
                    \<or> f64_less (tx_OverdraftLimit t) f64_zero
               then Some (ErrorString ''overdraft limit must be finite and non-negative'')
               else None))"

definition decimalAmount :: "Transaction \<Rightarrow> string" where
  "decimalAmount t = (if tx_AmountString t \<noteq> [] then tx_AmountString t else FormatFloat (tx_Amount t))"

text \<open>
  The loop that divides the denominator by one factor while it divides it. The guard
  \<open>den \<noteq> 0\<close> makes the recursion terminate; the loop is entered with a positive denominator
  only (\<open>precision_denominator\<close> below).
\<close>

function strip_factor :: "int \<Rightarrow> int \<Rightarrow> int \<Rightarrow> int \<times> int" where
  "strip_factor den f cnt =
     (if den \<noteq> 0 \<and> 2 \<le> f \<and> den mod f = 0 then strip_factor (den div f) f (cnt + 1) else (den, cnt))"
  by pat_completeness auto
termination
proof (relation "measure (\<lambda>(den, f, cnt). nat \<bar>den\<bar>)")
  fix den f cnt :: int
  assume "den \<noteq> 0 \<and> 2 \<le> f \<and> den mod f = 0"
  then obtain q where q: "den = f * q" "q \<noteq> 0" "2 \<le> f" by auto
  then have "\<bar>q\<bar> < \<bar>den\<bar>" by (simp add: abs_mult)
  with q show "((den div f, f, cnt + 1), den, f, cnt) \<in> measure (\<lambda>(den, f, cnt). nat \<bar>den\<bar>)"
    by simp
qed simp

declare strip_factor.simps [simp del]

definition decimal_places :: "int \<Rightarrow> int" where
  "decimal_places denominator =
     (let (d2, c2) = strip_factor denominator 2 0;
          (d5, c5) = strip_factor d2 5 0;
          places = (let p = (if 0 < c2 then c2 else 0) in if p < c5 then c5 else p)
      in if d5 \<noteq> 1 then int (length (show_int denominator)) + 16 else places)"

definition convertPreciseToDecimal :: "'d decimal_api \<Rightarrow> Transaction \<Rightarrow> Transaction" where
  "convertPreciseToDecimal D t =
     (let preciseAmountStr = (case tx_PreciseAmount t of None \<Rightarrow> ''<nil>'' | Some n \<Rightarrow> show_int n);
          preciseAmountDec = (case dNewFromString D preciseAmountStr of
                                Inl _ \<Rightarrow> dNewFromBigInt D 0 | Inr d \<Rightarrow> d);
          precisionDec = dNewFromFloat D (tx_Precision t);
          places = decimal_places (dBigInt D precisionDec);
          resultDec = dDivRound D preciseAmountDec precisionDec places
      in t\<lparr>tx_AmountString := dString D resultDec, tx_Amount := dFloat64 D resultDec\<rparr>)"

definition convertDecimalToPrecise :: "'d decimal_api \<Rightarrow> Transaction \<Rightarrow> int" where
  "convertDecimalToPrecise D t =
     (case ParseAmount D (decimalAmount t) (tx_Precision t) of Inl _ \<Rightarrow> 0 | Inr amount \<Rightarrow> amount)"

definition applyPrecisionLogic :: "'d decimal_api \<Rightarrow> Transaction \<Rightarrow> Transaction \<times> int" where
  "applyPrecisionLogic D t0 =
     (let t = (if f64_eq (tx_Precision t0) f64_zero then t0\<lparr>tx_Precision := Fin 1\<rparr> else t0)
      in case tx_PreciseAmount t of
           Some n \<Rightarrow>
             if 0 < n then (convertPreciseToDecimal D t, n)
             else (let m = convertDecimalToPrecise D t
                   in (convertPreciseToDecimal D (t\<lparr>tx_PreciseAmount := Some m\<rparr>), m))
         | None \<Rightarrow>
             (let m = convertDecimalToPrecise D t
              in (convertPreciseToDecimal D (t\<lparr>tx_PreciseAmount := Some m\<rparr>), m)))"

definition ApplyPrecision :: "'d decimal_api \<Rightarrow> Transaction \<Rightarrow> Transaction \<times> int" where
  "ApplyPrecision D t =
     (if validateMonetaryFields D (Some t) \<noteq> None then (t, 0)
      else applyPrecisionLogic D
             (if f64_eq (tx_Precision t) f64_zero then t\<lparr>tx_Precision := Fin 1\<rparr> else t))"

text \<open>\<open>validate\<close>, exported as \<open>ValidateAmount\<close>.\<close>

definition validate :: "'d decimal_api \<Rightarrow> Transaction \<Rightarrow> go_error option" where
  "validate D t = (case validateMonetaryFields D (Some t) of
       Some e \<Rightarrow> Some e
     | None \<Rightarrow> (case tx_PreciseAmount t of
           Some n \<Rightarrow> if n \<le> 0 then Some (ErrorString ''transaction precise amount must be positive'') else None
         | None \<Rightarrow> (case ParseAmount D (decimalAmount t) (tx_Precision t) of Inl e \<Rightarrow> Some e | Inr _ \<Rightarrow> None)))"

definition ApplyPrecisionChecked :: "'d decimal_api \<Rightarrow> Transaction \<Rightarrow> go_error + (Transaction \<times> int)" where
  "ApplyPrecisionChecked D t = guardE (validate D t) (Inr (ApplyPrecision D t))"

text \<open>
  The stored rows are (transaction id, parent, precision). The query takes the row with the
  id itself if there is one, else the child with the least id.
\<close>

definition precision_rows :: "(string \<times> string \<times> float64) list \<Rightarrow> string \<Rightarrow> float64 option" where
  "precision_rows rows tid =
     (let hits = filter (\<lambda>(i, parent, p). i = tid \<or> parent = tid) rows
      in case filter (\<lambda>(i, parent, p). i = tid) hits of
           (_, _, p) # _ \<Rightarrow> Some p
         | [] \<Rightarrow> (case sort_key fst hits of [] \<Rightarrow> None | (_, _, p) # _ \<Rightarrow> Some p))"

definition ApplyPrecisionWithDBLookupChecked ::
  "'d decimal_api \<Rightarrow> Transaction option \<Rightarrow> (string \<times> string \<times> float64) list option
     \<Rightarrow> go_error + (Transaction \<times> int)" where
  "ApplyPrecisionWithDBLookupChecked D transaction db = (case (transaction, db) of
       (Some t, Some rows) \<Rightarrow>
         if tx_TransactionID t = [] then Inl (ErrorString ''database and transaction ID are required for precision lookup'')
         else (case precision_rows rows (tx_TransactionID t) of
             None \<Rightarrow> Inl (errorf_w ''fetch transaction precision'' ErrNoRows)
           | Some precision \<Rightarrow>
               guardE (ValidatePrecision precision)
                 (if f64_eq precision f64_zero
                  then Inl (ErrorString ''stored transaction precision must be positive'')
                  else ApplyPrecisionChecked D (t\<lparr>tx_Precision := precision\<rparr>)))
     | _ \<Rightarrow> Inl (ErrorString ''database and transaction ID are required for precision lookup''))"

definition ApplyPrecisionWithDBLookup ::
  "'d decimal_api \<Rightarrow> Transaction option \<Rightarrow> (string \<times> string \<times> float64) list option
     \<Rightarrow> Transaction option \<times> int option" where
  "ApplyPrecisionWithDBLookup D transaction db =
     (case ApplyPrecisionWithDBLookupChecked D transaction db of
        Inl _ \<Rightarrow> (transaction, None)
      | Inr (t, amount) \<Rightarrow> (Some t, Some amount))"

subsection \<open>Lemmas\<close>

lemma pattern_iff_value: "monetaryDecimalPattern s \<longleftrightarrow> (\<exists>v. decimal_value s = Some v)"
  by (auto simp: monetaryDecimalPattern_def decimal_value_def split: option.splits)

lemma parseMonetaryDecimal_Inr:
  assumes "parseMonetaryDecimal D s = Inr d"
  shows "dNewFromString D s = Inr d \<and> monetaryDecimalPattern s"
  using assms by (auto simp: parseMonetaryDecimal_def bindE_Inr_iff split: if_splits)

lemma parseMonetaryDecimal_val:
  assumes "decimal_lib D val" "parseMonetaryDecimal D s = Inr d"
  shows "decimal_value s = Some (val d)"
  using parseMonetaryDecimal_Inr [OF assms(2)] decimal_lib.val_NewFromString [OF assms(1)]
  by (auto simp: pattern_iff_value)

lemma ValidatePrecision_None_iff:
  "ValidatePrecision p = None \<longleftrightarrow> (\<exists>n \<ge> 0. p = Fin (of_int n))"
proof (cases p)
  case (Fin r)
  show ?thesis
  proof
    assume "ValidatePrecision p = None"
    then have "r = of_int (rat_trunc r)" "0 \<le> r"
      using Fin by (auto simp: ValidatePrecision_def IsNaN_def IsInf_def f64_zero_def split: if_splits)
    moreover from this have "0 \<le> rat_trunc r" by (simp add: rat_trunc_nonneg)
    ultimately show "\<exists>n \<ge> 0. p = Fin (of_int n)" using Fin by metis
  qed (auto simp: ValidatePrecision_def IsNaN_def IsInf_def f64_zero_def)
qed (auto simp: ValidatePrecision_def IsNaN_def IsInf_def)

text \<open>Zero is the default scale of one.\<close>

lemma ParseAmount_default: "ParseAmount D s (Fin 0) = ParseAmount D s (Fin 1)"
  using ValidatePrecision_None_iff [of "Fin 0"] ValidatePrecision_None_iff [of "Fin 1"]
  by (simp add: ParseAmount_def f64_zero_def)

lemma ParseAmount_pos: "ParseAmount D s p = Inr n \<Longrightarrow> 0 < n"
  by (auto simp: ParseAmount_def Let_def guardE_Inr_iff split: sum.splits if_splits)

lemma ParseAmount_eq:
  assumes lib: "decimal_lib D val" and p: "1 \<le> p" "p \<le> 2 ^ 53"
    and parse: "parseMonetaryDecimal D s = Inr d"
  shows "ParseAmount D s (Fin (of_int p)) =
    (if val d \<le> 0 then Inl (ErrorString ''transaction amount must be positive'')
     else if round_half_away (val d * of_int p) \<le> 0
     then Inl (ErrorString ''transaction amount rounds to zero minor units'')
     else Inr (round_half_away (val d * of_int p)))"
proof -
  note D = decimal_lib.Sign_nonpos_iff [OF lib] decimal_lib.BigInt_Round0 [OF lib]
    decimal_lib.val_Mul [OF lib] decimal_lib.val_NewFromFloat [OF lib, of p]
  have "ValidatePrecision (Fin (of_int p)) = None" using p by (auto simp: ValidatePrecision_None_iff)
  moreover have "\<not> f64_eq (Fin (of_int p)) f64_zero" using p by (simp add: f64_zero_def)
  ultimately show ?thesis using parse p by (simp add: ParseAmount_def D Let_def)
qed

lemma strip_factor_spec:
  assumes "strip_factor d f c = (r, k)" "0 < d" "2 \<le> f"
  shows "c \<le> k \<and> 0 < r \<and> d = r * f ^ nat (k - c) \<and> r mod f \<noteq> 0"
  using assms
proof (induction d f c rule: strip_factor.induct)
  case (1 d f c)
  show ?case
  proof (cases "d mod f = 0")
    case True
    then have dq: "d = d div f * f" by auto
    have pos: "0 < d div f" using "1.prems" True by (metis dq mult_pos_pos pos_imp_zdiv_pos_iff zdvd_imp_le mod_0_imp_dvd zero_less_numeral order_less_le_trans)
    have "strip_factor (d div f) f (c + 1) = (r, k)"
      using "1.prems" True by (subst (asm) strip_factor.simps) simp
    with "1.IH" "1.prems" True pos have
      ih: "c + 1 \<le> k" "0 < r" "d div f = r * f ^ nat (k - (c + 1))" "r mod f \<noteq> 0" by auto
    then have "nat (k - c) = Suc (nat (k - (c + 1)))" by simp
    with ih dq show ?thesis by (simp add: mult.assoc mult.commute [of f])
  next
    case False
    then show ?thesis using "1.prems" by (subst (asm) strip_factor.simps) auto
  qed
qed

lemma lt_pow_length_show_nat: "n < 10 ^ length (show_nat n)"
proof (induction n rule: show_nat.induct)
  case (1 n)
  show ?case
  proof (cases "n < 10")
    case False
    with 1 have "n div 10 < 10 ^ length (show_nat (n div 10))" by simp
    then have "n < 10 ^ Suc (length (show_nat (n div 10)))" by simp
    with False show ?thesis by (simp add: show_nat.simps [of n])
  qed (simp add: show_nat.simps [of n])
qed

lemma decimal_places_nonneg: "0 < p \<Longrightarrow> 0 \<le> decimal_places p"
  by (auto simp: decimal_places_def split: prod.splits)

text \<open>
  With the chosen number of places the quotient is exact, or its error is below half of one
  minor unit.
\<close>

lemma decimal_places_exact_or_small:
  assumes "0 < p"
  shows "p dvd 10 ^ nat (decimal_places p) \<or> p < 10 ^ nat (decimal_places p)"
proof -
  obtain d2 c2 where s2: "strip_factor p 2 0 = (d2, c2)" by (cases "strip_factor p 2 0")
  obtain d5 c5 where s5: "strip_factor d2 5 0 = (d5, c5)" by (cases "strip_factor d2 5 0")
  have 2: "0 \<le> c2" "0 < d2" "p = d2 * 2 ^ nat c2" using strip_factor_spec [OF s2] assms by auto
  have 5: "0 \<le> c5" "d2 = d5 * 5 ^ nat c5" using strip_factor_spec [OF s5] 2 by auto
  show ?thesis
  proof (cases "d5 = 1")
    case True
    let ?k = "nat (decimal_places p)"
    have k: "nat c2 \<le> ?k" "nat c5 \<le> ?k" using 2 5 True s2 s5 by (auto simp: decimal_places_def)
    have "(10::int) ^ ?k = 2 ^ ?k * 5 ^ ?k" by (simp flip: power_mult_distrib)
    moreover have "(2::int) ^ nat c2 dvd 2 ^ ?k" "(5::int) ^ nat c5 dvd 5 ^ ?k"
      using k by (auto intro: le_imp_power_dvd)
    ultimately have "5 ^ nat c5 * 2 ^ nat c2 dvd (10::int) ^ ?k"
      by (metis mult.commute mult_dvd_mono)
    then show ?thesis using 2 5 True by simp
  next
    case False
    then have "decimal_places p = int (length (show_int p)) + 16" using s2 s5 by (simp add: decimal_places_def)
    then have k: "nat (decimal_places p) = length (show_nat (nat p)) + 16" using assms by (simp add: show_int_def)
    have "nat p < 10 ^ length (show_nat (nat p))" by (rule lt_pow_length_show_nat)
    also have "(10::nat) ^ length (show_nat (nat p)) \<le> 10 ^ (length (show_nat (nat p)) + 16)" by (rule power_increasing) auto
    finally have "int (nat p) < int (10 ^ nat (decimal_places p))" unfolding k by (simp only: of_nat_less_iff)
    then show ?thesis using assms by simp
  qed
qed

lemma round_half_away_near:
  assumes "\<bar>r - of_int n\<bar> < 1/2"
  shows "round_half_away r = n"
proof (cases "0 \<le> r")
  case True
  have "\<lfloor>r + 1/2\<rfloor> = n" by (rule floor_unique) (use assms in linarith)+
  with True show ?thesis by (simp add: round_half_away_def)
next
  case False
  have "\<lfloor>- r + 1/2\<rfloor> = - n" by (rule floor_unique) (use assms in linarith)+
  with False show ?thesis by (simp add: round_half_away_def)
qed

lemma convertPreciseToDecimal_fields:
  "\<exists>a s. convertPreciseToDecimal D t = t\<lparr>tx_AmountString := s, tx_Amount := a\<rparr>"
  by (auto simp: convertPreciseToDecimal_def Let_def)

lemma convertPreciseToDecimal_PreciseAmount [simp]:
  "tx_PreciseAmount (convertPreciseToDecimal D t) = tx_PreciseAmount t"
  "tx_Precision (convertPreciseToDecimal D t) = tx_Precision t"
  by (simp_all add: convertPreciseToDecimal_def Let_def)

text \<open>The value of the amount text that \<open>convertPreciseToDecimal\<close> stores.\<close>

lemma convertPreciseToDecimal_text:
  assumes lib: "decimal_lib D val" and p: "1 \<le> p" "p \<le> 2 ^ 53"
    and t: "tx_Precision t = Fin (of_int p)" "tx_PreciseAmount t = Some n"
  shows "decimal_value (tx_AmountString (convertPreciseToDecimal D t)) =
    Some (of_int (round_half_away (of_int n / of_int p * pow10 (decimal_places p))) / pow10 (decimal_places p))"
proof -
  obtain d where d: "dNewFromString D (show_int n) = Inr d"
    using decimal_lib.NewFromString_int [OF lib] by blast
  have vd: "val d = of_int n"
    using decimal_lib.val_NewFromString [OF lib d decimal_value_show_int] .
  have vp: "val (dNewFromFloat D (Fin (of_int p))) = of_int p"
    using decimal_lib.val_NewFromFloat [OF lib, of p] p by simp
  have "dBigInt D (dNewFromFloat D (Fin (of_int p))) = p"
    by (simp add: decimal_lib.BigInt_val [OF lib] vp)
  then show ?thesis
    using t d p vd vp
    by (simp add: convertPreciseToDecimal_def Let_def decimal_lib.String_val [OF lib]
        decimal_lib.val_DivRound [OF lib])
qed

lemma minor_unit_error:
  assumes p: "0 < p"
  defines "k \<equiv> decimal_places p"
  shows "\<bar>of_int (round_half_away (of_int n / of_int p * pow10 k)) / pow10 k * of_int p - (of_int n :: rat)\<bar> < 1/2"
    (is "\<bar>?v * _ - _\<bar> < _")
proof -
  have k0: "0 \<le> k" unfolding k_def by (rule decimal_places_nonneg [OF p])
  have P: "pow10 k = of_int (10 ^ nat k)" by (rule pow10_nonneg_int [OF k0])
  from decimal_places_exact_or_small [OF p, folded k_def] show ?thesis
  proof
    assume "p dvd 10 ^ nat k"
    then obtain q where q: "(10::int) ^ nat k = p * q" by (auto elim: dvdE)
    have "of_int n / of_int p * pow10 k = of_int (n * q)"
      unfolding P q using p by simp
    then have "?v = of_int (n * q) / pow10 k" by (simp only: round_half_away_of_int)
    moreover have "pow10 k = of_int p * of_int q" unfolding P q by simp
    moreover have "q \<noteq> 0" using q by auto
    ultimately show ?thesis using p by simp
  next
    assume "p < 10 ^ nat k"
    then have small: "of_int p / pow10 k < 1" unfolding P by (simp add: divide_less_eq)
    let ?x = "of_int n / of_int p * pow10 k"
    have "\<bar>of_int (round_half_away ?x) - ?x\<bar> * (of_int p / pow10 k) \<le> 1/2 * (of_int p / pow10 k)"
      using round_half_away_error [of ?x] p
      by (intro mult_right_mono divide_nonneg_pos) simp_all
    moreover have "\<bar>of_int (round_half_away ?x) - ?x\<bar> * (of_int p / pow10 k) = \<bar>?v * of_int p - of_int n\<bar>"
    proof -
      have "(of_int (round_half_away ?x) - ?x) * (of_int p / pow10 k) = ?v * of_int p - of_int n"
        using p by (simp add: field_simps)
      moreover have "\<bar>of_int p / pow10 k\<bar> = of_int p / pow10 k" using p by (simp add: abs_of_pos)
      ultimately show ?thesis by (metis abs_mult)
    qed
    ultimately show ?thesis using small by linarith
  qed
qed

lemma ApplyPrecision_amount:
  assumes "tx_PreciseAmount t = Some n" "0 < n"
  shows "snd (ApplyPrecision D t) = (if validateMonetaryFields D (Some t) = None then n else 0)"
  using assms by (auto simp: ApplyPrecision_def applyPrecisionLogic_def Let_def)

text \<open>Only \<open>Precision\<close>, \<open>PreciseAmount\<close>, \<open>Amount\<close> and \<open>AmountString\<close> are written.\<close>

lemma convertPreciseToDecimal_frame [simp]:
  "tx_ParentKind (convertPreciseToDecimal D t) = tx_ParentKind t"
  "tx_QueuedParent (convertPreciseToDecimal D t) = tx_QueuedParent t"
  "tx_QueueLane (convertPreciseToDecimal D t) = tx_QueueLane t"
  "tx_ShadowFor (convertPreciseToDecimal D t) = tx_ShadowFor t"
  "tx_ReservedMetadata (convertPreciseToDecimal D t) = tx_ReservedMetadata t"
  "tx_Rate (convertPreciseToDecimal D t) = tx_Rate t"
  "tx_ID (convertPreciseToDecimal D t) = tx_ID t"
  "tx_OverdraftLimit (convertPreciseToDecimal D t) = tx_OverdraftLimit t"
  "tx_TransactionID (convertPreciseToDecimal D t) = tx_TransactionID t"
  "tx_ParentTransaction (convertPreciseToDecimal D t) = tx_ParentTransaction t"
  "tx_Source (convertPreciseToDecimal D t) = tx_Source t"
  "tx_Destination (convertPreciseToDecimal D t) = tx_Destination t"
  "tx_Reference (convertPreciseToDecimal D t) = tx_Reference t"
  "tx_Currency (convertPreciseToDecimal D t) = tx_Currency t"
  "tx_Description (convertPreciseToDecimal D t) = tx_Description t"
  "tx_Status (convertPreciseToDecimal D t) = tx_Status t"
  "tx_QueueAction (convertPreciseToDecimal D t) = tx_QueueAction t"
  "tx_Hash (convertPreciseToDecimal D t) = tx_Hash t"
  "tx_AllowOverdraft (convertPreciseToDecimal D t) = tx_AllowOverdraft t"
  "tx_Inflight (convertPreciseToDecimal D t) = tx_Inflight t"
  "tx_SkipBalanceUpdate (convertPreciseToDecimal D t) = tx_SkipBalanceUpdate t"
  "tx_SkipQueue (convertPreciseToDecimal D t) = tx_SkipQueue t"
  "tx_Atomic (convertPreciseToDecimal D t) = tx_Atomic t"
  "tx_GroupIds (convertPreciseToDecimal D t) = tx_GroupIds t"
  "tx_Sources (convertPreciseToDecimal D t) = tx_Sources t"
  "tx_Destinations (convertPreciseToDecimal D t) = tx_Destinations t"
  "tx_CreatedAt (convertPreciseToDecimal D t) = tx_CreatedAt t"
  "tx_EffectiveDate (convertPreciseToDecimal D t) = tx_EffectiveDate t"
  "tx_ScheduledFor (convertPreciseToDecimal D t) = tx_ScheduledFor t"
  "tx_InflightExpiryDate (convertPreciseToDecimal D t) = tx_InflightExpiryDate t"
  "tx_InflightCommitDate (convertPreciseToDecimal D t) = tx_InflightCommitDate t"
  "tx_MetaData (convertPreciseToDecimal D t) = tx_MetaData t"
  by (simp_all add: convertPreciseToDecimal_def Let_def)

lemma applyPrecisionLogic_frame [simp]:
  "tx_ParentKind (fst (applyPrecisionLogic D t)) = tx_ParentKind t"
  "tx_QueuedParent (fst (applyPrecisionLogic D t)) = tx_QueuedParent t"
  "tx_QueueLane (fst (applyPrecisionLogic D t)) = tx_QueueLane t"
  "tx_ShadowFor (fst (applyPrecisionLogic D t)) = tx_ShadowFor t"
  "tx_ReservedMetadata (fst (applyPrecisionLogic D t)) = tx_ReservedMetadata t"
  "tx_Rate (fst (applyPrecisionLogic D t)) = tx_Rate t"
  "tx_ID (fst (applyPrecisionLogic D t)) = tx_ID t"
  "tx_OverdraftLimit (fst (applyPrecisionLogic D t)) = tx_OverdraftLimit t"
  "tx_TransactionID (fst (applyPrecisionLogic D t)) = tx_TransactionID t"
  "tx_ParentTransaction (fst (applyPrecisionLogic D t)) = tx_ParentTransaction t"
  "tx_Source (fst (applyPrecisionLogic D t)) = tx_Source t"
  "tx_Destination (fst (applyPrecisionLogic D t)) = tx_Destination t"
  "tx_Reference (fst (applyPrecisionLogic D t)) = tx_Reference t"
  "tx_Currency (fst (applyPrecisionLogic D t)) = tx_Currency t"
  "tx_Description (fst (applyPrecisionLogic D t)) = tx_Description t"
  "tx_Status (fst (applyPrecisionLogic D t)) = tx_Status t"
  "tx_QueueAction (fst (applyPrecisionLogic D t)) = tx_QueueAction t"
  "tx_Hash (fst (applyPrecisionLogic D t)) = tx_Hash t"
  "tx_AllowOverdraft (fst (applyPrecisionLogic D t)) = tx_AllowOverdraft t"
  "tx_Inflight (fst (applyPrecisionLogic D t)) = tx_Inflight t"
  "tx_SkipBalanceUpdate (fst (applyPrecisionLogic D t)) = tx_SkipBalanceUpdate t"
  "tx_SkipQueue (fst (applyPrecisionLogic D t)) = tx_SkipQueue t"
  "tx_Atomic (fst (applyPrecisionLogic D t)) = tx_Atomic t"
  "tx_GroupIds (fst (applyPrecisionLogic D t)) = tx_GroupIds t"
  "tx_Sources (fst (applyPrecisionLogic D t)) = tx_Sources t"
  "tx_Destinations (fst (applyPrecisionLogic D t)) = tx_Destinations t"
  "tx_CreatedAt (fst (applyPrecisionLogic D t)) = tx_CreatedAt t"
  "tx_EffectiveDate (fst (applyPrecisionLogic D t)) = tx_EffectiveDate t"
  "tx_ScheduledFor (fst (applyPrecisionLogic D t)) = tx_ScheduledFor t"
  "tx_InflightExpiryDate (fst (applyPrecisionLogic D t)) = tx_InflightExpiryDate t"
  "tx_InflightCommitDate (fst (applyPrecisionLogic D t)) = tx_InflightCommitDate t"
  "tx_MetaData (fst (applyPrecisionLogic D t)) = tx_MetaData t"
  by (simp_all add: applyPrecisionLogic_def Let_def split: option.split)

lemma ApplyPrecision_frame [simp]:
  "tx_ParentKind (fst (ApplyPrecision D t)) = tx_ParentKind t"
  "tx_QueuedParent (fst (ApplyPrecision D t)) = tx_QueuedParent t"
  "tx_QueueLane (fst (ApplyPrecision D t)) = tx_QueueLane t"
  "tx_ShadowFor (fst (ApplyPrecision D t)) = tx_ShadowFor t"
  "tx_ReservedMetadata (fst (ApplyPrecision D t)) = tx_ReservedMetadata t"
  "tx_Rate (fst (ApplyPrecision D t)) = tx_Rate t"
  "tx_ID (fst (ApplyPrecision D t)) = tx_ID t"
  "tx_OverdraftLimit (fst (ApplyPrecision D t)) = tx_OverdraftLimit t"
  "tx_TransactionID (fst (ApplyPrecision D t)) = tx_TransactionID t"
  "tx_ParentTransaction (fst (ApplyPrecision D t)) = tx_ParentTransaction t"
  "tx_Source (fst (ApplyPrecision D t)) = tx_Source t"
  "tx_Destination (fst (ApplyPrecision D t)) = tx_Destination t"
  "tx_Reference (fst (ApplyPrecision D t)) = tx_Reference t"
  "tx_Currency (fst (ApplyPrecision D t)) = tx_Currency t"
  "tx_Description (fst (ApplyPrecision D t)) = tx_Description t"
  "tx_Status (fst (ApplyPrecision D t)) = tx_Status t"
  "tx_QueueAction (fst (ApplyPrecision D t)) = tx_QueueAction t"
  "tx_Hash (fst (ApplyPrecision D t)) = tx_Hash t"
  "tx_AllowOverdraft (fst (ApplyPrecision D t)) = tx_AllowOverdraft t"
  "tx_Inflight (fst (ApplyPrecision D t)) = tx_Inflight t"
  "tx_SkipBalanceUpdate (fst (ApplyPrecision D t)) = tx_SkipBalanceUpdate t"
  "tx_SkipQueue (fst (ApplyPrecision D t)) = tx_SkipQueue t"
  "tx_Atomic (fst (ApplyPrecision D t)) = tx_Atomic t"
  "tx_GroupIds (fst (ApplyPrecision D t)) = tx_GroupIds t"
  "tx_Sources (fst (ApplyPrecision D t)) = tx_Sources t"
  "tx_Destinations (fst (ApplyPrecision D t)) = tx_Destinations t"
  "tx_CreatedAt (fst (ApplyPrecision D t)) = tx_CreatedAt t"
  "tx_EffectiveDate (fst (ApplyPrecision D t)) = tx_EffectiveDate t"
  "tx_ScheduledFor (fst (ApplyPrecision D t)) = tx_ScheduledFor t"
  "tx_InflightExpiryDate (fst (ApplyPrecision D t)) = tx_InflightExpiryDate t"
  "tx_InflightCommitDate (fst (ApplyPrecision D t)) = tx_InflightCommitDate t"
  "tx_MetaData (fst (ApplyPrecision D t)) = tx_MetaData t"
  by (simp_all add: ApplyPrecision_def)

lemma ApplyPrecisionChecked_Inr:
  assumes "ApplyPrecisionChecked D t = Inr (t', n)"
  shows "0 < n" "tx_PreciseAmount t' = Some n" "t' = fst (ApplyPrecision D t)"
    "validate D t = None"
proof -
  from assms have v: "validate D t = None" and a: "ApplyPrecision D t = (t', n)"
    by (auto simp: ApplyPrecisionChecked_def guardE_Inr_iff)
  then have m: "validateMonetaryFields D (Some t) = None"
    by (auto simp: validate_def split: option.splits)
  show "t' = fst (ApplyPrecision D t)" using a by simp
  show "validate D t = None" by (rule v)
  define u where "u = (if f64_eq (tx_Precision t) f64_zero then t\<lparr>tx_Precision := Fin 1\<rparr> else t)"
  have same: "ParseAmount D (decimalAmount u) (tx_Precision u) = ParseAmount D (decimalAmount t) (tx_Precision t)"
    by (cases "tx_Precision t") (simp_all add: u_def f64_zero_def decimalAmount_def ParseAmount_default)
  have nz: "\<not> f64_eq (tx_Precision u) f64_zero" by (simp add: u_def f64_zero_def)
  have ua: "applyPrecisionLogic D u = (t', n)" using a m by (simp add: ApplyPrecision_def u_def)
  have up: "tx_PreciseAmount u = tx_PreciseAmount t" by (simp add: u_def)
  have "0 < n \<and> tx_PreciseAmount t' = Some n"
  proof (cases "tx_PreciseAmount t")
    case None
    with v m obtain k where k: "ParseAmount D (decimalAmount t) (tx_Precision t) = Inr k"
      by (auto simp: validate_def split: sum.splits)
    then have "convertDecimalToPrecise D u = k" using same by (simp add: convertDecimalToPrecise_def)
    with None ua up nz ParseAmount_pos [OF k] show ?thesis
      by (auto simp: applyPrecisionLogic_def Let_def)
  next
    case (Some k)
    with v m have "0 < k" by (auto simp: validate_def split: if_splits)
    with Some ua up nz show ?thesis by (auto simp: applyPrecisionLogic_def Let_def)
  qed
  then show "0 < n" "tx_PreciseAmount t' = Some n" by auto
qed

subsection \<open>Properties\<close>

text \<open>
  C4: \<open>ParseAmount\<close> is exact up to one rounding. When it accepts a text at an integer
  precision \<open>p\<close> (zero standing for one), the text denotes a positive decimal \<open>v\<close> and the
  result is \<open>v * p\<close> rounded to the nearest integer, halves away from zero, which is positive.
\<close>

theorem ParseAmount_exact:
  assumes "decimal_lib D val" "0 \<le> p" "p \<le> 2 ^ 53"
    and "ParseAmount D s (Fin (of_int p)) = Inr n"
  shows "\<exists>v. decimal_value s = Some v \<and> 0 < v \<and> 0 < n \<and>
    n = round_half_away (v * of_int (if p = 0 then 1 else p))"
proof -
  define q where "q = (if p = 0 then 1 else p)"
  have q: "1 \<le> q" "q \<le> 2 ^ 53" using assms(2,3) by (auto simp: q_def)
  have acc: "ParseAmount D s (Fin (of_int q)) = Inr n"
    using assms(4) ParseAmount_default [of D s] by (auto simp: q_def split: if_splits)
  then obtain d where d: "parseMonetaryDecimal D s = Inr d"
    by (auto simp: ParseAmount_def guardE_Inr_iff Let_def split: sum.splits)
  have "decimal_value s = Some (val d)" by (rule parseMonetaryDecimal_val [OF assms(1) d])
  moreover have "0 < val d" "n = round_half_away (val d * of_int q)" "0 < n"
    using acc ParseAmount_eq [OF assms(1) q d] by (auto split: if_splits)
  ultimately show ?thesis unfolding q_def by blast
qed

theorem ParseAmount_exact_witness:
  "ParseAmount dec_ops ''0.295'' (Fin (of_int 100)) = Inr 30 \<and>
   (\<exists>v. decimal_value ''0.295'' = Some v \<and> 0 < v \<and> (0::int) < 30 \<and>
      30 = round_half_away (v * of_int (if (100::int) = 0 then 1 else 100)))"
proof -
  have acc: "ParseAmount dec_ops ''0.295'' (Fin (of_int 100)) = Inr 30"
    by (simp add: ParseAmount_def ValidatePrecision_def IsNaN_def IsInf_def f64_zero_def rat_trunc_def
        parseMonetaryDecimal_def monetaryDecimalPattern_def split_decimal_def take_sign_def
        take_digits_def is_digit_def take_exponent_def dec_ops_def dec_NewFromString_def
        digits_val_def digit_val_def dec_Mul_def dec_Round_def dec_val_def pow10_def round_half_away_def)
  with ParseAmount_exact [OF decimal.decimal_lib_axioms _ _ acc] show ?thesis by simp
qed


definition repeating_txn :: Transaction where
  "repeating_txn = zero_Transaction\<lparr>tx_Precision := Fin (of_int 3), tx_PreciseAmount := Some 10\<rparr>"

lemma repeating_txn_text:
  "tx_AmountString (convertPreciseToDecimal dec_ops repeating_txn) = ''3.33333333333333333''"
proof -
  have places: "decimal_places 3 = 17"
    by (simp add: decimal_places_def strip_factor.simps show_int_def show_nat.simps)
  have "dec_NewFromString (show_int 10) = Inr (10, 0)"
    by (simp add: show_int_def show_nat.simps go_string_simps dec_NewFromString_def split_decimal_def
        take_sign_def take_digits_def is_digit_def take_exponent_def digits_val_def digit_val_def)
  moreover have three: "rat_trunc 3 = 3" by (simp add: rat_trunc_def)
  moreover have "dec_DivRound (10, 0) (3, 0) 17 = (333333333333333333, -17)"
    by (simp add: dec_DivRound_def dec_val_def pow10_def round_half_away_def)
  moreover have "dec_String (333333333333333333, -17) = ''3.33333333333333333''"
  proof -
    have digits: "show_nat 333333333333333333 = ''333333333333333333''"
      by (simp add: show_nat.simps go_string_simps)
    have strip: "strip_zeros 333333333333333333 17 = (333333333333333333, 17)"
      by (simp add: strip_zeros_numeral)
    have "plain_decimal 333333333333333333 17 = ''3.33333333333333333''"
      unfolding plain_decimal_def strip by (simp add: digits pad_left_def Let_def)
    then show ?thesis by (simp add: dec_String_def)
  qed
  ultimately show ?thesis
    using places by (simp add: convertPreciseToDecimal_def repeating_txn_def zero_Transaction_def dec_ops_def Let_def dec_val_def)
qed


end
