(* ===== verification/Balance_Ops.thy ===== *)
theory Balance_Ops
  imports Amount
begin

section \<open>Balance arithmetic (the balance half of model/model.go, model/clone.go)\<close>

text \<open>
  The methods of \<open>Balance\<close> return the updated balance. A function that can fail after it has
  already written through one of its pointers returns the error together with the state it
  leaves behind, so the error paths keep what the code has mutated.
\<close>

subsection \<open>Definitions\<close>

text \<open>The value of an initialised \<open>*big.Int\<close> field.\<close>

definition big :: "int option \<Rightarrow> int" where
  "big v = (case v of None \<Rightarrow> 0 | Some n \<Rightarrow> n)"

lemma big_simps [simp]: "big None = 0" "big (Some n) = n"
  by (simp_all add: big_def)

definition Int64ToBigInt :: "int \<Rightarrow> int option" where
  "Int64ToBigInt value = Some value"

definition compare_op :: "int \<Rightarrow> string \<Rightarrow> int \<Rightarrow> bool" where
  "compare_op value condition compareTo =
     (if condition = ''>'' then compareTo < value
      else if condition = ''<'' then value < compareTo
      else if condition = ''>='' then compareTo \<le> value
      else if condition = ''<='' then value \<le> compareTo
      else if condition = ''!='' then value \<noteq> compareTo
      else if condition = ''=='' then value = compareTo
      else False)"

text \<open>\<open>compare\<close> of two pointers: \<open>Cmp\<close> panics on nil, before the operator is looked at.\<close>

definition compare :: "int option \<Rightarrow> string \<Rightarrow> int option \<Rightarrow> go_error + bool" where
  "compare value condition compareTo = (case (value, compareTo) of
       (Some v, Some c) \<Rightarrow> Inr (compare_op v condition c)
     | _ \<Rightarrow> Inl (GoPanic ''nil pointer dereference''))"

definition init_field :: "int option \<Rightarrow> int option" where
  "init_field v = (case v of None \<Rightarrow> Some 0 | Some n \<Rightarrow> Some n)"

definition InitializeBalanceFields :: "Balance \<Rightarrow> Balance" where
  "InitializeBalanceFields b = b\<lparr>
     bal_InflightDebitBalance := init_field (bal_InflightDebitBalance b),
     bal_InflightCreditBalance := init_field (bal_InflightCreditBalance b),
     bal_InflightBalance := init_field (bal_InflightBalance b),
     bal_DebitBalance := init_field (bal_DebitBalance b),
     bal_CreditBalance := init_field (bal_CreditBalance b),
     bal_Balance := init_field (bal_Balance b)\<rparr>"

definition addCredit :: "Balance \<Rightarrow> int \<Rightarrow> bool \<Rightarrow> Balance" where
  "addCredit b0 amount inflight =
     (let b = InitializeBalanceFields b0
      in if inflight
         then b\<lparr>bal_InflightCreditBalance := Some (big (bal_InflightCreditBalance b) + amount)\<rparr>
         else b\<lparr>bal_CreditBalance := Some (big (bal_CreditBalance b) + amount)\<rparr>)"

definition addDebit :: "Balance \<Rightarrow> int \<Rightarrow> bool \<Rightarrow> Balance" where
  "addDebit b0 amount inflight =
     (let b = InitializeBalanceFields b0
      in if inflight
         then b\<lparr>bal_InflightDebitBalance := Some (big (bal_InflightDebitBalance b) + amount)\<rparr>
         else b\<lparr>bal_DebitBalance := Some (big (bal_DebitBalance b) + amount)\<rparr>)"

definition computeBalance :: "Balance \<Rightarrow> bool \<Rightarrow> Balance" where
  "computeBalance b0 inflight =
     (let b = InitializeBalanceFields b0
      in if inflight
         then b\<lparr>bal_InflightBalance :=
                Some (big (bal_InflightCreditBalance b) - big (bal_InflightDebitBalance b))\<rparr>
         else b\<lparr>bal_Balance := Some (big (bal_CreditBalance b) - big (bal_DebitBalance b))\<rparr>)"

text \<open>
  The funds a new transaction may draw on: the balance less what is held inflight and, when
  the queued totals were loaded, less what is queued.
\<close>

definition availableBalance :: "Balance \<Rightarrow> int" where
  "availableBalance b =
     (let available = big (bal_Balance b) - big (bal_InflightDebitBalance b)
      in case bal_QueuedDebitBalance b of None \<Rightarrow> available | Some q \<Rightarrow> available - q)"

definition overdraftLimitPrecise :: "'d decimal_api \<Rightarrow> Transaction \<Rightarrow> int" where
  "overdraftLimitPrecise D t =
     dBigInt D (dRound D (dMul D (dNewFromFloat D (tx_OverdraftLimit t)) (dNewFromFloat D (tx_Precision t))) 0)"

text \<open>The error and the source balance, whose nil fields the check has initialised.\<close>

definition canProcessTransaction ::
  "'d decimal_api \<Rightarrow> Transaction \<Rightarrow> Balance \<Rightarrow> go_error option \<times> Balance" where
  "canProcessTransaction D t source =
     (if tx_AllowOverdraft t \<and> f64_eq (tx_OverdraftLimit t) f64_zero then (None, source)
      else
       (let b = InitializeBalanceFields source; available = availableBalance b
        in case tx_PreciseAmount t of
             None \<Rightarrow> (Some (GoPanic ''nil pointer dereference''), b)
           | Some amount \<Rightarrow>
               if amount \<le> available then (None, b)
               else if f64_less f64_zero (tx_OverdraftLimit t) then
                 (if - overdraftLimitPrecise D t \<le> available - amount then (None, b)
                  else (Some (ErrorString ''transaction exceeds overdraft limit''), b))
               else (Some (ErrorString ''insufficient funds in source balance''), b)))"

definition checkSufficientInflightDebit :: "Balance \<Rightarrow> int option \<Rightarrow> go_error option" where
  "checkSufficientInflightDebit b amount = (case amount of
       None \<Rightarrow> Some (ErrorString ''inflight amount must be positive'')
     | Some n \<Rightarrow>
         if n \<le> 0 then Some (ErrorString ''inflight amount must be positive'')
         else if big (bal_InflightDebitBalance b) < n
         then Some (ErrorString (''insufficient inflight debit balance: have '' @
                show_int (big (bal_InflightDebitBalance b)) @ '', need '' @ show_int n))
         else None)"

definition checkSufficientInflightCredit :: "Balance \<Rightarrow> int option \<Rightarrow> go_error option" where
  "checkSufficientInflightCredit b amount = (case amount of
       None \<Rightarrow> Some (ErrorString ''inflight amount must be positive'')
     | Some n \<Rightarrow>
         if n \<le> 0 then Some (ErrorString ''inflight amount must be positive'')
         else if big (bal_InflightCreditBalance b) < n
         then Some (ErrorString (''insufficient inflight credit balance: have '' @
                show_int (big (bal_InflightCreditBalance b)) @ '', need '' @ show_int n))
         else None)"

definition CommitInflightDebit ::
  "'d decimal_api \<Rightarrow> Transaction \<Rightarrow> Balance \<Rightarrow> go_error option \<times> Transaction \<times> Balance" where
  "CommitInflightDebit D t0 b0 =
     (let b = InitializeBalanceFields b0; (t, amount) = ApplyPrecision D t0
      in case checkSufficientInflightDebit b (Some amount) of
           Some e \<Rightarrow> (Some e, t, b)
         | None \<Rightarrow>
             (let b1 = b\<lparr>bal_InflightDebitBalance := Some (big (bal_InflightDebitBalance b) - amount)\<rparr>;
                  b2 = b1\<lparr>bal_DebitBalance := Some (big (bal_DebitBalance b1) + amount)\<rparr>
              in (None, t, computeBalance (computeBalance b2 True) False)))"

definition CommitInflightCredit ::
  "'d decimal_api \<Rightarrow> Transaction \<Rightarrow> Balance \<Rightarrow> go_error option \<times> Transaction \<times> Balance" where
  "CommitInflightCredit D t0 b0 =
     (let b = InitializeBalanceFields b0; (t, amount) = ApplyPrecision D t0
      in case checkSufficientInflightCredit b (Some amount) of
           Some e \<Rightarrow> (Some e, t, b)
         | None \<Rightarrow>
             (let b1 = b\<lparr>bal_InflightCreditBalance := Some (big (bal_InflightCreditBalance b) - amount)\<rparr>;
                  b2 = b1\<lparr>bal_CreditBalance := Some (big (bal_CreditBalance b1) + amount)\<rparr>
              in (None, t, computeBalance (computeBalance b2 True) False)))"

definition RollbackInflightCredit :: "Balance \<Rightarrow> int option \<Rightarrow> go_error option \<times> Balance" where
  "RollbackInflightCredit b0 amount =
     (let b = InitializeBalanceFields b0
      in case checkSufficientInflightCredit b amount of
           Some e \<Rightarrow> (Some e, b)
         | None \<Rightarrow> (None, computeBalance
             (b\<lparr>bal_InflightCreditBalance := Some (big (bal_InflightCreditBalance b) - big amount)\<rparr>) True))"

definition RollbackInflightDebit :: "Balance \<Rightarrow> int option \<Rightarrow> go_error option \<times> Balance" where
  "RollbackInflightDebit b0 amount =
     (let b = InitializeBalanceFields b0
      in case checkSufficientInflightDebit b amount of
           Some e \<Rightarrow> (Some e, b)
         | None \<Rightarrow> (None, computeBalance
             (b\<lparr>bal_InflightDebitBalance := Some (big (bal_InflightDebitBalance b) - big amount)\<rparr>) True))"

text \<open>
  \<open>UpdateBalances\<close> returns the error, the transaction and the two balances it was given
  pointers to. The two balances are distinct objects at every call site.
\<close>

definition UpdateBalances ::
  "'d decimal_api \<Rightarrow> Transaction \<Rightarrow> Balance \<Rightarrow> Balance \<Rightarrow> go_error option \<times> Transaction \<times> Balance \<times> Balance" where
  "UpdateBalances D t0 source destination = (case ApplyPrecisionChecked D t0 of
       Inl e \<Rightarrow> (Some e, t0, source, destination)
     | Inr (t1, amount) \<Rightarrow>
         (let t = t1\<lparr>tx_PreciseAmount := Some amount\<rparr>
          in case canProcessTransaction D t source of
               (Some e, s) \<Rightarrow> (Some e, t, s, destination)
             | (None, s) \<Rightarrow>
                 (let s1 = InitializeBalanceFields s; d1 = InitializeBalanceFields destination;
                      s2 = addDebit s1 (big (tx_PreciseAmount t)) (tx_Inflight t);
                      s3 = computeBalance s2 (tx_Inflight t);
                      d2 = addCredit d1 (big (tx_PreciseAmount t)) (tx_Inflight t);
                      d3 = computeBalance d2 (tx_Inflight t)
                  in (None, t, s3, d3))))"

definition CheckCondition :: "BalanceMonitor \<Rightarrow> Balance \<Rightarrow> go_error + bool" where
  "CheckCondition bm b =
     (let c = bm_Condition bm; f = ac_Field c
      in if f = ''debit_balance'' then compare (bal_DebitBalance b) (ac_Operator c) (ac_PreciseValue c)
         else if f = ''credit_balance'' then compare (bal_CreditBalance b) (ac_Operator c) (ac_PreciseValue c)
         else if f = ''balance'' then compare (bal_Balance b) (ac_Operator c) (ac_PreciseValue c)
         else if f = ''inflight_debit_balance'' then compare (bal_InflightDebitBalance b) (ac_Operator c) (ac_PreciseValue c)
         else if f = ''inflight_credit_balance'' then compare (bal_InflightCreditBalance b) (ac_Operator c) (ac_PreciseValue c)
         else if f = ''inflight_balance'' then compare (bal_InflightBalance b) (ac_Operator c) (ac_PreciseValue c)
         else Inr False)"

definition ToInternalTransaction :: "ExternalTransaction \<Rightarrow> Transaction" where
  "ToInternalTransaction et = zero_Transaction\<lparr>
     tx_TransactionID := et_ID et, tx_Amount := et_Amount et, tx_Reference := et_Reference et,
     tx_Currency := et_Currency et, tx_CreatedAt := et_Date et, tx_Description := et_Description et\<rparr>"

subsection \<open>The abstract account\<close>

text \<open>
  What a balance promises: four totals, and the two nets derived from them. \<open>post\<close>,
  \<open>hold\<close>, \<open>settle\<close> and \<open>release\<close> are the specification of the four movements.
\<close>

record account =
  credit :: int
  debit :: int
  held_credit :: int
  held_debit :: int

definition account_of :: "Balance \<Rightarrow> account" where
  "account_of b = \<lparr>credit = big (bal_CreditBalance b), debit = big (bal_DebitBalance b),
     held_credit = big (bal_InflightCreditBalance b), held_debit = big (bal_InflightDebitBalance b)\<rparr>"

definition balance_ok :: "Balance \<Rightarrow> bool" where
  "balance_ok b \<longleftrightarrow>
     big (bal_Balance b) = big (bal_CreditBalance b) - big (bal_DebitBalance b) \<and>
     big (bal_InflightBalance b) = big (bal_InflightCreditBalance b) - big (bal_InflightDebitBalance b) \<and>
     0 \<le> big (bal_CreditBalance b) \<and> 0 \<le> big (bal_DebitBalance b) \<and>
     0 \<le> big (bal_InflightCreditBalance b) \<and> 0 \<le> big (bal_InflightDebitBalance b)"

definition debit_account :: "bool \<Rightarrow> int \<Rightarrow> account \<Rightarrow> account" where
  "debit_account inflight n a =
     (if inflight then a\<lparr>held_debit := held_debit a + n\<rparr> else a\<lparr>debit := debit a + n\<rparr>)"

definition credit_account :: "bool \<Rightarrow> int \<Rightarrow> account \<Rightarrow> account" where
  "credit_account inflight n a =
     (if inflight then a\<lparr>held_credit := held_credit a + n\<rparr> else a\<lparr>credit := credit a + n\<rparr>)"

definition settle_debit :: "int \<Rightarrow> account \<Rightarrow> account" where
  "settle_debit n a = a\<lparr>held_debit := held_debit a - n, debit := debit a + n\<rparr>"

definition settle_credit :: "int \<Rightarrow> account \<Rightarrow> account" where
  "settle_credit n a = a\<lparr>held_credit := held_credit a - n, credit := credit a + n\<rparr>"

definition release_debit :: "int \<Rightarrow> account \<Rightarrow> account" where
  "release_debit n a = a\<lparr>held_debit := held_debit a - n\<rparr>"

definition release_credit :: "int \<Rightarrow> account \<Rightarrow> account" where
  "release_credit n a = a\<lparr>held_credit := held_credit a - n\<rparr>"

lemmas account_defs = debit_account_def credit_account_def settle_debit_def settle_credit_def
  release_debit_def release_credit_def

text \<open>What identifies a stored balance and what no movement changes.\<close>

definition balance_key :: "Balance \<Rightarrow> string \<times> int \<times> string \<times> string \<times> int option" where
  "balance_key b = (bal_BalanceID b, bal_Version b, bal_LedgerID b, bal_Currency b, bal_QueuedDebitBalance b)"

subsection \<open>Lemmas\<close>

lemma big_init_field [simp]: "big (init_field v) = big v"
  by (cases v) (simp_all add: init_field_def)

lemma InitializeBalanceFields_view [simp]:
  "account_of (InitializeBalanceFields b) = account_of b"
  "balance_ok (InitializeBalanceFields b) = balance_ok b"
  "balance_key (InitializeBalanceFields b) = balance_key b"
  "availableBalance (InitializeBalanceFields b) = availableBalance b"
  by (simp_all add: account_of_def balance_ok_def balance_key_def InitializeBalanceFields_def
      availableBalance_def)

lemmas balance_op_defs = InitializeBalanceFields_def addCredit_def addDebit_def computeBalance_def Let_def

lemma debit_leg [ledger_simps]:
  fixes b n i defines "b' \<equiv> computeBalance (addDebit b n i) i"
  shows "account_of b' = debit_account i n (account_of b)"
    and "balance_key b' = balance_key b"
    and "balance_ok b \<Longrightarrow> 0 \<le> n \<Longrightarrow> balance_ok b'"
    and "balance_ok b \<Longrightarrow> availableBalance b' = availableBalance b - n"
  by (auto simp: b'_def balance_op_defs account_of_def debit_account_def balance_key_def
      balance_ok_def availableBalance_def split: option.split)

lemma credit_leg [ledger_simps]:
  fixes b n i defines "b' \<equiv> computeBalance (addCredit b n i) i"
  shows "account_of b' = credit_account i n (account_of b)"
    and "balance_key b' = balance_key b"
    and "balance_ok b \<Longrightarrow> 0 \<le> n \<Longrightarrow> balance_ok b'"
  by (auto simp: b'_def balance_op_defs account_of_def credit_account_def balance_key_def
      balance_ok_def)

lemma canProcessTransaction_balance:
  "canProcessTransaction D t b = (e, b') \<Longrightarrow> b' = b \<or> b' = InitializeBalanceFields b"
  by (auto simp: canProcessTransaction_def Let_def split: if_splits option.splits)

lemma canProcessTransaction_view:
  assumes "canProcessTransaction D t b = (e, b')"
  shows "account_of b' = account_of b" "balance_ok b' = balance_ok b" "balance_key b' = balance_key b"
    "availableBalance b' = availableBalance b"
  using canProcessTransaction_balance [OF assms] by auto

text \<open>The lowest available balance a transaction may leave behind.\<close>

definition overdraft_floor :: "'d decimal_api \<Rightarrow> Transaction \<Rightarrow> int" where
  "overdraft_floor D t =
     (if f64_less f64_zero (tx_OverdraftLimit t) then - overdraftLimitPrecise D t else 0)"

definition unlimited_overdraft :: "Transaction \<Rightarrow> bool" where
  "unlimited_overdraft t \<longleftrightarrow> tx_AllowOverdraft t \<and> f64_eq (tx_OverdraftLimit t) f64_zero"

lemma overdraftLimitPrecise_nonneg:
  assumes lib: "decimal_lib D val" and "f64_less f64_zero (tx_OverdraftLimit t)" "tx_OverdraftLimit t \<noteq> PosInf"
    and "tx_Precision t = Fin p" "0 \<le> p"
  shows "0 \<le> overdraftLimitPrecise D t"
proof -
  obtain l where l: "tx_OverdraftLimit t = Fin l" "0 \<le> l"
    using assms(2,3) by (cases "tx_OverdraftLimit t") (auto simp: f64_zero_def)
  let ?v = "val (dNewFromFloat D (Fin l)) * val (dNewFromFloat D (Fin p))"
  have "0 \<le> ?v" using decimal_lib.NewFromFloat_nonneg [OF lib] l(2) assms(5) by simp
  then have "0 \<le> round_half_away ?v" by (simp add: round_half_away_def)
  then show ?thesis
    by (simp add: overdraftLimitPrecise_def l assms(4) decimal_lib.BigInt_Round0 [OF lib]
        decimal_lib.val_Mul [OF lib])
qed

lemma canProcessTransaction_iff:
  assumes "tx_PreciseAmount t = Some n" "overdraft_floor D t \<le> 0"
  shows "fst (canProcessTransaction D t b) = None \<longleftrightarrow>
    unlimited_overdraft t \<or> overdraft_floor D t \<le> availableBalance b - n"
  using assms
  by (auto simp: canProcessTransaction_def unlimited_overdraft_def overdraft_floor_def Let_def)

lemma UpdateBalances_None:
  assumes "UpdateBalances D t s d = (None, t', s', d')"
  obtains n where "ApplyPrecisionChecked D t = Inr (t', n)" "0 < n" "tx_PreciseAmount t' = Some n"
    "fst (canProcessTransaction D t' s) = None"
    "account_of s' = debit_account (tx_Inflight t) n (account_of s)"
    "account_of d' = credit_account (tx_Inflight t) n (account_of d)"
    "balance_key s' = balance_key s" "balance_key d' = balance_key d"
    "balance_ok s \<Longrightarrow> balance_ok s'" "balance_ok d \<Longrightarrow> balance_ok d'"
    "balance_ok s \<Longrightarrow> availableBalance s' = availableBalance s - n"
proof -
  obtain t1 n where a: "ApplyPrecisionChecked D t = Inr (t1, n)"
    using assms by (auto simp: UpdateBalances_def split: sum.splits)
  note pr = ApplyPrecisionChecked_Inr [OF a]
  have same: "t1\<lparr>tx_PreciseAmount := Some n\<rparr> = t1" using pr(2) by simp
  obtain s0 where c: "canProcessTransaction D t1 s = (None, s0)"
    using assms by (auto simp: UpdateBalances_def a same Let_def split: prod.splits option.splits)
  have t': "t' = t1" and s': "s' = computeBalance (addDebit (InitializeBalanceFields s0) n (tx_Inflight t1)) (tx_Inflight t1)"
    and d': "d' = computeBalance (addCredit (InitializeBalanceFields d) n (tx_Inflight t1)) (tx_Inflight t1)"
    using assms pr(2) by (auto simp: UpdateBalances_def a same c Let_def)
  have i: "tx_Inflight t1 = tx_Inflight t" using pr(3) by simp
  show thesis
    by (rule that [of n]) (use a pr(1,2) c in \<open>simp_all add: t' s' d' i debit_leg credit_leg canProcessTransaction_view [OF c]\<close>)
qed

lemma UpdateBalances_txn:
  assumes "UpdateBalances D t s d = (None, t', s', d')"
  shows "t' = fst (ApplyPrecision D t)" "tx_PreciseAmount t' = Some (snd (ApplyPrecision D t))"
    "validate D t = None"
proof -
  obtain n where a: "ApplyPrecisionChecked D t = Inr (t', n)"
    using UpdateBalances_None [OF assms] by metis
  then have "snd (ApplyPrecision D t) = n" by (auto simp: ApplyPrecisionChecked_def guardE_Inr_iff)
  with ApplyPrecisionChecked_Inr [OF a] show "t' = fst (ApplyPrecision D t)"
    "tx_PreciseAmount t' = Some (snd (ApplyPrecision D t))" "validate D t = None" by auto
qed

lemma UpdateBalances_Some:
  assumes "UpdateBalances D t s d = (Some e, t', s', d')"
  shows "d' = d" "account_of s' = account_of s" "balance_key s' = balance_key s" "balance_ok s' = balance_ok s"
  using assms canProcessTransaction_view [of D _ s "Some e"]
  by (auto simp: UpdateBalances_def Let_def split: sum.splits prod.splits option.splits)

lemma ApplyPrecision_pos:
  "0 < snd (ApplyPrecision D t) \<Longrightarrow> tx_PreciseAmount (fst (ApplyPrecision D t)) = Some (snd (ApplyPrecision D t))"
  by (cases "validateMonetaryFields D (Some t) = None")
     (auto simp: ApplyPrecision_def applyPrecisionLogic_def Let_def split: option.splits)

lemma commit_leg_result:
  fixes b n defines "b' \<equiv> \<lambda>u. computeBalance (computeBalance (u (InitializeBalanceFields b)) True) False"
    and "dr \<equiv> \<lambda>b. b\<lparr>bal_InflightDebitBalance := Some (big (bal_InflightDebitBalance b) - n),
                    bal_DebitBalance := Some (big (bal_DebitBalance b) + n)\<rparr>"
    and "cr \<equiv> \<lambda>b. b\<lparr>bal_InflightCreditBalance := Some (big (bal_InflightCreditBalance b) - n),
                    bal_CreditBalance := Some (big (bal_CreditBalance b) + n)\<rparr>"
  shows "account_of (b' dr) = settle_debit n (account_of b)" "balance_key (b' dr) = balance_key b"
    "account_of (b' cr) = settle_credit n (account_of b)" "balance_key (b' cr) = balance_key b"
    "balance_ok b \<Longrightarrow> 0 < n \<Longrightarrow> n \<le> held_debit (account_of b) \<Longrightarrow> balance_ok (b' dr)"
    "balance_ok b \<Longrightarrow> 0 < n \<Longrightarrow> n \<le> held_credit (account_of b) \<Longrightarrow> balance_ok (b' cr)"
  by (auto simp: b'_def dr_def cr_def balance_op_defs account_of_def settle_debit_def settle_credit_def
      balance_key_def balance_ok_def)

lemma CommitInflightDebit_cases:
  assumes "CommitInflightDebit D t b = (e, t', b')"
  shows "t' = fst (ApplyPrecision D t)" "balance_key b' = balance_key b"
    and "e = None \<longleftrightarrow> 0 < snd (ApplyPrecision D t) \<and> snd (ApplyPrecision D t) \<le> held_debit (account_of b)"
    and "e \<noteq> None \<Longrightarrow> account_of b' = account_of b \<and> balance_ok b' = balance_ok b"
    and "e = None \<Longrightarrow> account_of b' = settle_debit (snd (ApplyPrecision D t)) (account_of b) \<and>
           (balance_ok b \<longrightarrow> balance_ok b')"
  using assms commit_leg_result [of b "snd (ApplyPrecision D t)"]
  by (auto simp: CommitInflightDebit_def Let_def split: prod.splits option.splits)
     (auto simp: checkSufficientInflightDebit_def InitializeBalanceFields_def account_of_def balance_ok_def
       split: if_splits)

lemma CommitInflightCredit_cases:
  assumes "CommitInflightCredit D t b = (e, t', b')"
  shows "t' = fst (ApplyPrecision D t)" "balance_key b' = balance_key b"
    and "e = None \<longleftrightarrow> 0 < snd (ApplyPrecision D t) \<and> snd (ApplyPrecision D t) \<le> held_credit (account_of b)"
    and "e \<noteq> None \<Longrightarrow> account_of b' = account_of b \<and> balance_ok b' = balance_ok b"
    and "e = None \<Longrightarrow> account_of b' = settle_credit (snd (ApplyPrecision D t)) (account_of b) \<and>
           (balance_ok b \<longrightarrow> balance_ok b')"
  using assms commit_leg_result [of b "snd (ApplyPrecision D t)"]
  by (auto simp: CommitInflightCredit_def Let_def split: prod.splits option.splits)
     (auto simp: checkSufficientInflightCredit_def InitializeBalanceFields_def account_of_def balance_ok_def
       split: if_splits)

lemma RollbackInflightDebit_cases:
  assumes "RollbackInflightDebit b (Some n) = (e, b')"
  shows "balance_key b' = balance_key b"
    and "e = None \<longleftrightarrow> 0 < n \<and> n \<le> held_debit (account_of b)"
    and "e \<noteq> None \<Longrightarrow> account_of b' = account_of b \<and> balance_ok b' = balance_ok b"
    and "e = None \<Longrightarrow> account_of b' = release_debit n (account_of b) \<and> (balance_ok b \<longrightarrow> balance_ok b')"
  using assms
  by (auto simp: RollbackInflightDebit_def checkSufficientInflightDebit_def balance_op_defs account_of_def
      balance_ok_def balance_key_def release_debit_def split: if_splits)

lemma RollbackInflightCredit_cases:
  assumes "RollbackInflightCredit b (Some n) = (e, b')"
  shows "balance_key b' = balance_key b"
    and "e = None \<longleftrightarrow> 0 < n \<and> n \<le> held_credit (account_of b)"
    and "e \<noteq> None \<Longrightarrow> account_of b' = account_of b \<and> balance_ok b' = balance_ok b"
    and "e = None \<Longrightarrow> account_of b' = release_credit n (account_of b) \<and> (balance_ok b \<longrightarrow> balance_ok b')"
  using assms
  by (auto simp: RollbackInflightCredit_def checkSufficientInflightCredit_def balance_op_defs account_of_def
      balance_ok_def balance_key_def release_credit_def split: if_splits)

lemma validate_precision:
  assumes "validate D t = None"
  shows "\<exists>p > 0. tx_Precision (fst (ApplyPrecision D t)) = Fin (of_int p)"
    and "\<exists>l \<ge> 0. tx_OverdraftLimit t = Fin l"
proof -
  have m: "validateMonetaryFields D (Some t) = None"
    using assms by (auto simp: validate_def split: option.splits)
  then have "ValidatePrecision (tx_Precision t) = None"
    and l: "\<not> (IsNaN (tx_OverdraftLimit t) \<or> IsInf (tx_OverdraftLimit t) \<or> f64_less (tx_OverdraftLimit t) f64_zero)"
    by (auto simp: validateMonetaryFields_def split: if_splits option.splits)
  then obtain n where n: "0 \<le> n" "tx_Precision t = Fin (of_int n)"
    by (auto simp: ValidatePrecision_None_iff)
  have "tx_Precision (fst (ApplyPrecision D t)) = Fin (of_int (if n = 0 then 1 else n))"
    using m n by (auto simp: ApplyPrecision_def applyPrecisionLogic_def Let_def f64_zero_def split: option.splits)
  then show "\<exists>p > 0. tx_Precision (fst (ApplyPrecision D t)) = Fin (of_int p)"
    using n(1) by (intro exI [of _ "if n = 0 then 1 else n"]) auto
  show "\<exists>l \<ge> 0. tx_OverdraftLimit t = Fin l"
    using l by (cases "tx_OverdraftLimit t") (auto simp: IsNaN_def IsInf_def f64_zero_def)
qed

lemma overdraft_floor_nonpos:
  assumes lib: "decimal_lib D val" and "validate D t = None"
  shows "overdraft_floor D (fst (ApplyPrecision D t)) \<le> 0"
proof -
  obtain p l where "0 < p" "tx_Precision (fst (ApplyPrecision D t)) = Fin (of_int p)" "tx_OverdraftLimit t = Fin l"
    using validate_precision [OF assms(2)] by blast
  then show ?thesis
    using overdraftLimitPrecise_nonneg [OF lib, of "fst (ApplyPrecision D t)" "of_int p"]
    by (simp add: overdraft_floor_def)
qed

subsection \<open>Properties\<close>

text \<open>
  C1: a successful \<open>UpdateBalances\<close> is a double entry. The one positive amount that the
  transaction carries afterwards is debited to the source and credited to the destination, on
  the inflight totals for an inflight transaction and on the posted totals otherwise; the
  other totals, the identity and the version of both balances stay; both balances remain well
  formed; and the sum of the two net balances, posted and inflight, does not change.
\<close>

theorem UpdateBalances_double_entry:
  assumes "UpdateBalances D t s d = (None, t', s', d')" "balance_ok s" "balance_ok d"
  shows "\<exists>n > 0. tx_PreciseAmount t' = Some n \<and>
    account_of s' = debit_account (tx_Inflight t) n (account_of s) \<and>
    account_of d' = credit_account (tx_Inflight t) n (account_of d) \<and>
    balance_key s' = balance_key s \<and> balance_key d' = balance_key d \<and>
    balance_ok s' \<and> balance_ok d' \<and>
    big (bal_Balance s') + big (bal_Balance d') = big (bal_Balance s) + big (bal_Balance d) \<and>
    big (bal_InflightBalance s') + big (bal_InflightBalance d') =
      big (bal_InflightBalance s) + big (bal_InflightBalance d)"
proof -
  obtain n where n: "0 < n" "tx_PreciseAmount t' = Some n"
    and s': "account_of s' = debit_account (tx_Inflight t) n (account_of s)"
    and d': "account_of d' = credit_account (tx_Inflight t) n (account_of d)"
    and k: "balance_key s' = balance_key s" "balance_key d' = balance_key d"
    and ok: "balance_ok s'" "balance_ok d'"
    using UpdateBalances_None [OF assms(1)] assms(2,3) by metis
  have "big (bal_Balance s') + big (bal_Balance d') = big (bal_Balance s) + big (bal_Balance d)"
    "big (bal_InflightBalance s') + big (bal_InflightBalance d') =
       big (bal_InflightBalance s) + big (bal_InflightBalance d)"
    using s' d' ok assms(2,3)
    by (auto simp: account_of_def balance_ok_def debit_account_def credit_account_def split: if_splits)
  with n s' d' k ok show ?thesis by blast
qed

definition ex_balance :: "string \<Rightarrow> int \<Rightarrow> Balance" where
  "ex_balance i c = zero_Balance\<lparr>bal_BalanceID := i, bal_Balance := Some c, bal_CreditBalance := Some c\<rparr>"

definition ex_txn :: Transaction where
  "ex_txn = zero_Transaction\<lparr>tx_PreciseAmount := Some 40, tx_Precision := Fin (of_int 100)\<rparr>"

lemma ex_txn_valid: "validate D (ex_txn\<lparr>tx_PreciseAmount := Some n, tx_Inflight := i\<rparr>) = (if 0 < n then None
    else Some (ErrorString ''transaction precise amount must be positive''))"
  by (simp add: validate_def validateMonetaryFields_def ex_txn_def zero_Transaction_def f64_zero_def
      IsNaN_def IsInf_def ValidatePrecision_def rat_trunc_def)

lemma ex_txn_amount: "0 < n \<Longrightarrow> snd (ApplyPrecision D (ex_txn\<lparr>tx_PreciseAmount := Some n, tx_Inflight := i\<rparr>)) = n"
  using ApplyPrecision_amount [of "ex_txn\<lparr>tx_PreciseAmount := Some n, tx_Inflight := i\<rparr>" n D] ex_txn_valid [of D i n]
  by (auto simp: validate_def split: option.splits)

lemma ex_balance_view [simp]:
  "0 \<le> c \<Longrightarrow> balance_ok (ex_balance i c)" "availableBalance (ex_balance i c) = c"
  "account_of (ex_balance i c) = \<lparr>credit = c, debit = 0, held_credit = 0, held_debit = 0\<rparr>"
  by (simp_all add: ex_balance_def balance_ok_def zero_Balance_def availableBalance_def account_of_def)

text \<open>Whether the checked transaction goes through, before the balances are touched.\<close>

lemma UpdateBalances_accepts:
  assumes "validate D t = None"
  shows "fst (UpdateBalances D t s d) = fst (canProcessTransaction D (fst (ApplyPrecision D t)) s)"
proof -
  obtain t1 n where a: "ApplyPrecisionChecked D t = Inr (t1, n)"
    using assms by (cases "ApplyPrecision D t") (auto simp: ApplyPrecisionChecked_def)
  note pr = ApplyPrecisionChecked_Inr [OF a]
  have same: "t1\<lparr>tx_PreciseAmount := Some n\<rparr> = t1" using pr(2) by simp
  show ?thesis by (auto simp: UpdateBalances_def a same Let_def pr(3) [symmetric] split: prod.splits option.splits)
qed

lemma UpdateBalances_amount:
  "validate D t = None \<Longrightarrow> 0 < snd (ApplyPrecision D t) \<and>
   tx_PreciseAmount (fst (ApplyPrecision D t)) = Some (snd (ApplyPrecision D t))"
  using ApplyPrecisionChecked_Inr(1,2) [of D t "fst (ApplyPrecision D t)" "snd (ApplyPrecision D t)"]
  by (simp add: ApplyPrecisionChecked_def)

theorem UpdateBalances_double_entry_witness:
  "\<exists>t' s' d' n. UpdateBalances dec_ops (ex_txn\<lparr>tx_PreciseAmount := Some 40, tx_Inflight := True\<rparr>)
      (ex_balance ''a'' 100) (ex_balance ''b'' 7) = (None, t', s', d') \<and>
    tx_PreciseAmount t' = Some n \<and> held_debit (account_of s') = n \<and> held_credit (account_of d') = n"
proof -
  let ?t = "ex_txn\<lparr>tx_PreciseAmount := Some 40, tx_Inflight := True\<rparr>"
  obtain e t' s' d' where u: "UpdateBalances dec_ops ?t (ex_balance ''a'' 100) (ex_balance ''b'' 7) = (e, t', s', d')"
    by (metis prod_cases4)
  have v: "validate dec_ops ?t = None" by (simp add: ex_txn_valid)
  have "e = None"
    using UpdateBalances_accepts [OF v, of "ex_balance ''a'' 100" "ex_balance ''b'' 7"] u UpdateBalances_amount [OF v]
      ex_txn_amount [of 40 dec_ops True]
    by (simp add: canProcessTransaction_def Let_def)
  with u UpdateBalances_double_entry [of dec_ops ?t "ex_balance ''a'' 100" "ex_balance ''b'' 7" t' s' d']
  show ?thesis by (auto simp: debit_account_def credit_account_def)
qed

text \<open>
  C2: the overdraft rule is exact. For a valid transaction of amount \<open>n\<close>, \<open>UpdateBalances\<close>
  succeeds if and only if overdraft is unlimited or the available funds (net balance less
  inflight and queued debits) less \<open>n\<close> stay at or above the floor, which is the negated
  overdraft limit in minor units or zero; success lowers the available funds of the source by
  exactly \<open>n\<close> and a refusal leaves all totals of both balances as they were.
\<close>

theorem UpdateBalances_overdraft_exact:
  assumes "decimal_lib D val" "validate D t = None" "balance_ok s"
    and "UpdateBalances D t s d = (e, t', s', d')"
    and "n = snd (ApplyPrecision D t)"
  shows "(e = None \<longleftrightarrow> unlimited_overdraft t \<or>
           overdraft_floor D (fst (ApplyPrecision D t)) \<le> availableBalance s - n) \<and>
    (e = None \<longrightarrow> availableBalance s' = availableBalance s - n) \<and>
    (e \<noteq> None \<longrightarrow> account_of s' = account_of s \<and> d' = d)"
proof (intro conjI impI)
  note amount = UpdateBalances_amount [OF assms(2)]
  have "unlimited_overdraft (fst (ApplyPrecision D t)) = unlimited_overdraft t"
    by (simp add: unlimited_overdraft_def)
  then show "e = None \<longleftrightarrow> unlimited_overdraft t \<or>
      overdraft_floor D (fst (ApplyPrecision D t)) \<le> availableBalance s - n"
    using UpdateBalances_accepts [OF assms(2), of s d] assms(4,5) amount
      canProcessTransaction_iff [OF _ overdraft_floor_nonpos [OF assms(1,2)], of n s]
    by simp
next
  assume "e = None"
  with assms(4) have "UpdateBalances D t s d = (None, t', s', d')" by simp
  then obtain m where "ApplyPrecisionChecked D t = Inr (t', m)" "availableBalance s' = availableBalance s - m"
    using UpdateBalances_None assms(3) by metis
  then show "availableBalance s' = availableBalance s - n"
    using assms(5) by (auto simp: ApplyPrecisionChecked_def guardE_Inr_iff)
qed (use assms(4) UpdateBalances_Some in \<open>auto\<close>)

theorem UpdateBalances_overdraft_exact_witness:
  "let t = ex_txn\<lparr>tx_PreciseAmount := Some 40, tx_Inflight := False\<rparr>
   in fst (UpdateBalances dec_ops t (ex_balance ''a'' 40) (ex_balance ''b'' 0)) = None \<and>
      fst (UpdateBalances dec_ops t (ex_balance ''a'' 39) (ex_balance ''b'' 0)) \<noteq> None"
proof -
  let ?t = "ex_txn\<lparr>tx_PreciseAmount := Some 40, tx_Inflight := False\<rparr>"
  have v: "validate dec_ops ?t = None" by (simp add: ex_txn_valid)
  have n: "40 = snd (ApplyPrecision dec_ops ?t)" by (simp add: ex_txn_amount)
  have f: "overdraft_floor dec_ops (fst (ApplyPrecision dec_ops ?t)) = 0" "\<not> unlimited_overdraft ?t"
    by (simp_all add: overdraft_floor_def unlimited_overdraft_def ex_txn_def zero_Transaction_def f64_zero_def)
  note exact = UpdateBalances_overdraft_exact [OF decimal.decimal_lib_axioms v _ _ n]
  have "fst (UpdateBalances dec_ops ?t (ex_balance ''a'' c) (ex_balance ''b'' 0)) = None \<longleftrightarrow> 40 \<le> c" if "0 \<le> c" for c
    using exact [of "ex_balance ''a'' c" "ex_balance ''b'' 0"] f that
    by (cases "UpdateBalances dec_ops ?t (ex_balance ''a'' c) (ex_balance ''b'' 0)") auto
  from this [of 40] this [of 39] show ?thesis by (simp add: Let_def)
qed

text \<open>
  C3: an inflight hold that is committed in part and then voided is the posting of the
  committed part. After a hold of \<open>n\<close>, committing any \<open>c\<close> with \<open>0 < c < n\<close> on both legs
  and rolling back the rest on both legs succeeds, and the totals are those of a direct
  posting of \<open>c\<close>: no hold is left over and nothing beyond \<open>c\<close> has moved.
\<close>

theorem hold_commit_void:
  assumes hold: "UpdateBalances D t s d = (None, t', s1, d1)" "tx_Inflight t" "tx_PreciseAmount t' = Some n"
    and ok: "balance_ok s" "balance_ok d"
    and c: "snd (ApplyPrecision D tc) = c" "0 < c" "c < n"
    and commit: "CommitInflightDebit D tc s1 = (es, tcs, s2)" "CommitInflightCredit D tc d1 = (ed, tcd, d2)"
    and void: "RollbackInflightDebit s2 (Some (n - c)) = (fs, s3)" "RollbackInflightCredit d2 (Some (n - c)) = (fd, d3)"
  shows "es = None \<and> ed = None \<and> fs = None \<and> fd = None \<and> balance_ok s3 \<and> balance_ok d3 \<and>
    account_of s3 = debit_account False c (account_of s) \<and>
    account_of d3 = credit_account False c (account_of d)"
proof -
  have 1: "account_of s1 = debit_account True n (account_of s)" "account_of d1 = credit_account True n (account_of d)"
    "balance_ok s1" "balance_ok d1"
    using UpdateBalances_None [OF hold(1)] hold(2,3) ok by (metis option.inject)+
  have room: "n \<le> held_debit (account_of s1)" "n \<le> held_credit (account_of d1)"
    using 1 ok by (auto simp: account_of_def balance_ok_def account_defs)
  have 2: "es = None" "ed = None"
    "account_of s2 = settle_debit c (account_of s1)" "account_of d2 = settle_credit c (account_of d1)"
    "balance_ok s2" "balance_ok d2"
    using CommitInflightDebit_cases(3,5) [OF commit(1)] CommitInflightCredit_cases(3,5) [OF commit(2)] c room 1(3,4)
    by auto
  have 3: "fs = None" "fd = None"
    "account_of s3 = release_debit (n - c) (account_of s2)" "account_of d3 = release_credit (n - c) (account_of d2)"
    "balance_ok s3" "balance_ok d3"
    using RollbackInflightDebit_cases(2,4) [OF void(1)] RollbackInflightCredit_cases(2,4) [OF void(2)] c(3) room 2
    by (auto simp: account_defs)
  show ?thesis using 1 2 3 by (auto simp: account_defs)
qed

theorem hold_commit_void_witness:
  "\<exists>s3 d3. account_of s3 = \<lparr>credit = 100, debit = 15, held_credit = 0, held_debit = 0\<rparr> \<and>
     account_of d3 = \<lparr>credit = 15, debit = 0, held_credit = 0, held_debit = 0\<rparr> \<and>
     (\<exists>t' s1 d1 tcs s2 tcd d2.
        UpdateBalances dec_ops (ex_txn\<lparr>tx_PreciseAmount := Some 40, tx_Inflight := True\<rparr>)
          (ex_balance ''a'' 100) (ex_balance ''b'' 0) = (None, t', s1, d1) \<and>
        CommitInflightDebit dec_ops (ex_txn\<lparr>tx_PreciseAmount := Some 15, tx_Inflight := True\<rparr>) s1 = (None, tcs, s2) \<and>
        CommitInflightCredit dec_ops (ex_txn\<lparr>tx_PreciseAmount := Some 15, tx_Inflight := True\<rparr>) d1 = (None, tcd, d2) \<and>
        RollbackInflightDebit s2 (Some 25) = (None, s3) \<and> RollbackInflightCredit d2 (Some 25) = (None, d3))"
proof -
  let ?t = "ex_txn\<lparr>tx_PreciseAmount := Some 40, tx_Inflight := True\<rparr>"
  let ?c = "ex_txn\<lparr>tx_PreciseAmount := Some 15, tx_Inflight := True\<rparr>"
  let ?s = "ex_balance ''a'' 100" and ?d = "ex_balance ''b'' 0"
  have v: "validate dec_ops ?t = None" by (simp add: ex_txn_valid)
  obtain e t' s1 d1 where u: "UpdateBalances dec_ops ?t ?s ?d = (e, t', s1, d1)" by (metis prod_cases4)
  have e: "e = None"
    using UpdateBalances_accepts [OF v, of ?s ?d] u UpdateBalances_amount [OF v] ex_txn_amount [of 40 dec_ops True]
    by (simp add: canProcessTransaction_def Let_def)
  have p: "tx_PreciseAmount t' = Some 40"
    using UpdateBalances_txn [OF u [unfolded e]] ex_txn_amount [of 40 dec_ops True] by simp
  obtain es tcs s2 ed tcd d2 where
    c: "CommitInflightDebit dec_ops ?c s1 = (es, tcs, s2)" "CommitInflightCredit dec_ops ?c d1 = (ed, tcd, d2)"
    by (metis prod_cases3)
  obtain fs s3 fd d3 where
    r: "RollbackInflightDebit s2 (Some (40 - 15)) = (fs, s3)" "RollbackInflightCredit d2 (Some (40 - 15)) = (fd, d3)"
    by (metis surj_pair)
  have "es = None \<and> ed = None \<and> fs = None \<and> fd = None \<and> balance_ok s3 \<and> balance_ok d3 \<and>
      account_of s3 = debit_account False 15 (account_of ?s) \<and> account_of d3 = credit_account False 15 (account_of ?d)"
    by (rule hold_commit_void [OF u [unfolded e] _ p _ _ _ _ _ c r])
       (simp_all add: ex_txn_amount)
  with u e c r show ?thesis by (auto simp: debit_account_def credit_account_def)
qed

end
