(* ===== verification/Sha256.thy ===== *)
theory Sha256
  imports Go_Lang
begin

section \<open>crypto/sha256 and encoding/hex\<close>

text \<open>
  SHA-256 on 32-bit words, as the standard (FIPS 180-4) writes it, and the lower-case
  hexadecimal text of a digest. \<open>sha256_hex\<close> is \<open>hex.EncodeToString(sha256.Sum256(data)[:])\<close>.
\<close>

type_synonym byte = "8 word"

definition bytes_of :: "string \<Rightarrow> byte list" where
  "bytes_of s = map (\<lambda>c. of_nat (of_char c)) s"

subsection \<open>Constants\<close>

text \<open>
  The standard takes its constants from the primes: the round constants are the first 32 bits
  of the fractional parts of the cube roots of the first 64 primes, the initial state those of
  the square roots of the first eight. \<open>root_floor k b n r\<close> adds to \<open>r\<close> the bits below \<open>2 ^ b\<close>
  of the integer part of the \<open>k\<close>-th root of \<open>n\<close>.
\<close>

fun root_floor :: "nat \<Rightarrow> nat \<Rightarrow> int \<Rightarrow> int \<Rightarrow> int" where
  "root_floor k 0 n r = r"
| "root_floor k (Suc b) n r = root_floor k b n (if (r + 2 ^ b) ^ k \<le> n then r + 2 ^ b else r)"

lemma root_floor_bounds:
  assumes "r ^ k \<le> n" "n < (r + 2 ^ b) ^ k"
  shows "root_floor k b n r ^ k \<le> n \<and> n < (root_floor k b n r + 1) ^ k"
  using assms
proof (induction b arbitrary: r)
  case (Suc b)
  have dbl: "r + 2 ^ b + 2 ^ b = r + (2 :: int) ^ Suc b" by simp
  show ?case
  proof (cases "(r + 2 ^ b) ^ k \<le> n")
    case True
    with Suc.IH [of "r + 2 ^ b"] Suc.prems(2) show ?thesis by (simp only: dbl root_floor.simps if_True)
  next
    case False
    then have "root_floor k (Suc b) n r = root_floor k b n r" by (simp only: root_floor.simps if_False)
    with Suc.IH [of r] Suc.prems(1) False show ?thesis by (simp only: not_le)
  qed
qed simp

definition sha_primes :: "int list" where
  "sha_primes =
    [2, 3, 5, 7, 11, 13, 17, 19, 23, 29, 31, 37, 41, 43, 47, 53,
     59, 61, 67, 71, 73, 79, 83, 89, 97, 101, 103, 107, 109, 113, 127, 131,
     137, 139, 149, 151, 157, 163, 167, 173, 179, 181, 191, 193, 197, 199, 211, 223,
     227, 229, 233, 239, 241, 251, 257, 263, 269, 271, 277, 281, 283, 293, 307, 311]"

definition root_bits :: "nat \<Rightarrow> int \<Rightarrow> 32 word" where
  "root_bits k p = word_of_int (root_floor k 36 (p * 2 ^ (32 * k)) 0)"

definition sha_K :: "32 word list" where
  "sha_K = map (root_bits 3) sha_primes"

definition sha_H0 :: "32 word list" where
  "sha_H0 = map (root_bits 2) (take 8 sha_primes)"

lemma length_sha_H0 [simp]: "length sha_H0 = 8"
  by (simp add: sha_H0_def sha_primes_def)

subsection \<open>Padding and parsing\<close>

fun be_bytes :: "nat \<Rightarrow> nat \<Rightarrow> byte list" where
  "be_bytes 0 n = []"
| "be_bytes (Suc k) n = be_bytes k (n div 256) @ [of_nat (n mod 256)]"

definition sha_pad :: "byte list \<Rightarrow> byte list" where
  "sha_pad m =
     (let l = length m; z = (119 - l mod 64) mod 64
      in m @ [0x80] @ replicate z 0 @ be_bytes 8 (8 * l))"

fun be_words :: "byte list \<Rightarrow> 32 word list" where
  "be_words (a # b # c # d # r) =
     (push_bit 24 (ucast a) + push_bit 16 (ucast b) + push_bit 8 (ucast c) + ucast d) # be_words r"
| "be_words _ = []"

function blocks :: "32 word list \<Rightarrow> 32 word list list" where
  "blocks ws = (if ws = [] then [] else take 16 ws # blocks (drop 16 ws))"
  by pat_completeness auto
termination by (relation "measure length") auto

declare blocks.simps [simp del]

subsection \<open>Compression\<close>

unbundle bit_operations_syntax

definition sigma0 :: "32 word \<Rightarrow> 32 word" where
  "sigma0 x = word_rotr 7 x XOR word_rotr 18 x XOR drop_bit 3 x"

definition sigma1 :: "32 word \<Rightarrow> 32 word" where
  "sigma1 x = word_rotr 17 x XOR word_rotr 19 x XOR drop_bit 10 x"

definition Sigma0 :: "32 word \<Rightarrow> 32 word" where
  "Sigma0 x = word_rotr 2 x XOR word_rotr 13 x XOR word_rotr 22 x"

definition Sigma1 :: "32 word \<Rightarrow> 32 word" where
  "Sigma1 x = word_rotr 6 x XOR word_rotr 11 x XOR word_rotr 25 x"

definition Ch :: "32 word \<Rightarrow> 32 word \<Rightarrow> 32 word \<Rightarrow> 32 word" where
  "Ch x y z = (x AND y) XOR (NOT x AND z)"

definition Maj :: "32 word \<Rightarrow> 32 word \<Rightarrow> 32 word \<Rightarrow> 32 word" where
  "Maj x y z = (x AND y) XOR (x AND z) XOR (y AND z)"

text \<open>The schedule, newest word first: \<open>w\<close> holds the words produced so far.\<close>

fun extend_schedule :: "nat \<Rightarrow> 32 word list \<Rightarrow> 32 word list" where
  "extend_schedule 0 w = w"
| "extend_schedule (Suc k) w =
     extend_schedule k ((sigma1 (w ! 1) + w ! 6 + sigma0 (w ! 14) + w ! 15) # w)"

definition schedule :: "32 word list \<Rightarrow> 32 word list" where
  "schedule block = rev (extend_schedule 48 (rev block))"

fun sha_round :: "32 word list \<Rightarrow> 32 word \<times> 32 word \<Rightarrow> 32 word list" where
  "sha_round [a, b, c, d, e, f, g, h] (k, w) =
     (let t1 = h + Sigma1 e + Ch e f g + k + w; t2 = Sigma0 a + Maj a b c
      in [t1 + t2, a, b, c, d + t1, e, f, g])"
| "sha_round s _ = s"

definition compress :: "32 word list \<Rightarrow> 32 word list \<Rightarrow> 32 word list" where
  "compress h block = map2 (+) h (foldl sha_round h (zip sha_K (schedule block)))"

definition Sum256 :: "byte list \<Rightarrow> byte list" where
  "Sum256 m =
     concat (map (\<lambda>w. be_bytes 4 (unat w)) (foldl compress sha_H0 (blocks (be_words (sha_pad m)))))"

subsection \<open>Hexadecimal text\<close>

definition hex_char :: "nat \<Rightarrow> char" where
  "hex_char n = (if n < 10 then char_of (48 + n) else char_of (87 + n))"

definition EncodeToString :: "byte list \<Rightarrow> string" where
  "EncodeToString bs = concat (map (\<lambda>b. [hex_char (unat b div 16), hex_char (unat b mod 16)]) bs)"

definition sha256_hex :: "string \<Rightarrow> string" where
  "sha256_hex s = EncodeToString (Sum256 (bytes_of s))"

end
