(* ===== verification/Splits.thy ===== *)
theory Splits
  imports Balance_Ops Sha256 "HOL-Library.Product_Lexorder"
begin

section \<open>Splitting a transaction over several parties (model/transaction.go)\<close>

text \<open>
  The allocation of one amount over fixed, percentage and left-over distributions, and the
  construction of the legs of a split transaction. The Go maps of the calculation are
  association lists in insertion order; \<open>findLargestDecimal_order\<close> and
  \<open>largest_result_order\<close> show that the choices made by ranging over a map do not
  depend on the order.
\<close>

subsection \<open>Definitions\<close>

record 'd distributionState =
  ds_totalAmountDec :: 'd
  ds_amountLeftDec :: 'd
  ds_precisionDec :: 'd
  ds_totalPercentage :: 'd
  ds_fixedTotalDec :: 'd
  ds_fixedAmounts :: "(string \<times> 'd) list"
  ds_percentAmounts :: "(string \<times> 'd) list"
  ds_result :: "(string \<times> int) list"

definition GenerateUUIDWithSuffix :: "string \<Rightarrow> string \<Rightarrow> string" where
  "GenerateUUIDWithSuffix prefix uuid = prefix @ ''_'' @ uuid"

definition HashTxn :: "Transaction \<Rightarrow> string" where
  "HashTxn t = sha256_hex (FormatFloat (tx_Amount t) @ tx_Reference t @ tx_Currency t @ tx_Source t @ tx_Destination t)"

definition GetEffectiveDate :: "Transaction \<Rightarrow> time" where
  "GetEffectiveDate t = (case tx_EffectiveDate t of Some d \<Rightarrow> d | None \<Rightarrow> tx_CreatedAt t)"

definition isLeftDistribution :: "Distribution \<Rightarrow> bool" where
  "isLeftDistribution d \<longleftrightarrow> di_Distribution d = ''left'' \<or> di_PreciseDistribution d = ''left''"

definition isPercentageDistribution :: "Distribution \<Rightarrow> bool" where
  "isPercentageDistribution d = HasSuffix (di_Distribution d) ''%''"

definition parseFixedAmount :: "'d decimal_api \<Rightarrow> Distribution \<Rightarrow> 'd \<Rightarrow> go_error + 'd" where
  "parseFixedAmount D part precisionDec =
     (if di_PreciseDistribution part \<noteq> [] then
        (if 4096 < int (length (di_PreciseDistribution part))
         then Inl (ErrorString ''precise_distribution exceeds 4096 characters'')
         else (case SetString (di_PreciseDistribution part) of
             None \<Rightarrow> Inl (ErrorString ''invalid precise_distribution format: must be an integer value in minor units'')
           | Some amount \<Rightarrow>
               if amount < 0 then Inl (ErrorString ''distribution amount cannot be negative'')
               else Inr (dNewFromBigInt D amount)))
      else if di_Distribution part \<noteq> [] then
        (case parseMonetaryDecimal D (di_Distribution part) of
           Inl _ \<Rightarrow> Inl (ErrorString ''invalid fixed amount format'')
         | Inr amount \<Rightarrow>
             if dSign D amount < 0 then Inl (ErrorString ''distribution amount cannot be negative'')
             else Inr (dMul D amount precisionDec))
      else Inl (ErrorString ''distribution amount is required''))"

fun processFixedDistributions ::
  "'d decimal_api \<Rightarrow> Distribution list \<Rightarrow> 'd distributionState \<Rightarrow> go_error + 'd distributionState" where
  "processFixedDistributions D [] st = Inr st"
| "processFixedDistributions D (part # parts) st =
     (if isLeftDistribution part \<or> isPercentageDistribution part then processFixedDistributions D parts st
      else bindE (parseFixedAmount D part (ds_precisionDec st)) (\<lambda>fixedAmountDec.
        if 0 < dCmp D fixedAmountDec (ds_amountLeftDec st)
        then Inl (ErrorString ''fixed amount exceeds remaining transaction amount'')
        else processFixedDistributions D parts (st\<lparr>
          ds_fixedAmounts := AList.update (di_Identifier part) fixedAmountDec (ds_fixedAmounts st),
          ds_fixedTotalDec := dAdd D (ds_fixedTotalDec st) fixedAmountDec,
          ds_amountLeftDec := dSub D (ds_amountLeftDec st) fixedAmountDec\<rparr>)))"

fun processPercentageDistributions ::
  "'d decimal_api \<Rightarrow> Distribution list \<Rightarrow> 'd distributionState \<Rightarrow> go_error + 'd distributionState" where
  "processPercentageDistributions D [] st = Inr st"
| "processPercentageDistributions D (part # parts) st =
     (if isLeftDistribution part \<or> \<not> isPercentageDistribution part
      then processPercentageDistributions D parts st
      else (case parseMonetaryDecimal D (butlast (di_Distribution part)) of
          Inl _ \<Rightarrow> Inl (ErrorString ''invalid percentage format'')
        | Inr percentageDec \<Rightarrow>
            if dSign D percentageDec < 0 then Inl (ErrorString ''distribution percentage cannot be negative'')
            else
             (let raw = dShift D (dMul D (ds_totalAmountDec st) percentageDec) (-2);
                  amount = (if 0 < dSign D raw \<and> dCmp D raw (dNewFromBigInt D 1) < 0
                            then dNewFromBigInt D 0 else raw)
              in processPercentageDistributions D parts (st\<lparr>
                   ds_totalPercentage := dAdd D (ds_totalPercentage st) percentageDec,
                   ds_percentAmounts := AList.update (di_Identifier part) amount (ds_percentAmounts st)\<rparr>))))"

definition percentageTarget :: "'d decimal_api \<Rightarrow> 'd distributionState \<Rightarrow> 'd" where
  "percentageTarget D st = dShift D (dMul D (ds_totalAmountDec st) (ds_totalPercentage st)) (-2)"

definition validateDistributions :: "'d decimal_api \<Rightarrow> 'd distributionState \<Rightarrow> go_error option" where
  "validateDistributions D st =
     (if 0 < dCmp D (ds_totalPercentage st) (dNewFromBigInt D 100) \<or>
         0 < dCmp D (dAdd D (ds_fixedTotalDec st) (percentageTarget D st)) (ds_totalAmountDec st)
      then Some (ErrorString ''total distributions exceed 100% or total amount'') else None)"

definition largest_step ::
  "'d decimal_api \<Rightarrow> string \<times> 'd \<Rightarrow> string \<times> 'd \<Rightarrow> string \<times> 'd" where
  "largest_step D p acc = (case (p, acc) of ((i, amount), (largestKey, largestAmount)) \<Rightarrow>
     if largestKey = [] \<or> 0 < dCmp D amount largestAmount \<or> (dCmp D amount largestAmount = 0 \<and> i < largestKey)
     then (i, amount) else (largestKey, largestAmount))"

definition findLargestDecimal :: "'d decimal_api \<Rightarrow> (string \<times> 'd) list \<Rightarrow> string \<times> 'd" where
  "findLargestDecimal D amounts = fold (largest_step D) amounts ([], dNewFromBigInt D 0)"

definition adjustPercentageAmounts :: "'d decimal_api \<Rightarrow> 'd distributionState \<Rightarrow> 'd distributionState" where
  "adjustPercentageAmounts D st =
     (if ds_percentAmounts st = [] then st
      else
       (let currentTotal = fold (\<lambda>(i, a) acc. dAdd D acc a) (ds_percentAmounts st) (dNewFromBigInt D 0);
            diff = dSub D (percentageTarget D st) currentTotal
        in if dCmp D (dAbs D diff) (dNewFromBigInt D 0) \<le> 0 then st
           else (let (largestKey, largestAmount) = findLargestDecimal D (ds_percentAmounts st)
                 in if largestKey \<noteq> [] \<and> 0 < dSign D largestAmount
                    then (case map_of (ds_percentAmounts st) largestKey of
                            None \<Rightarrow> st
                          | Some a \<Rightarrow> st\<lparr>ds_percentAmounts :=
                              AList.update largestKey (dAdd D a diff) (ds_percentAmounts st)\<rparr>)
                    else st)))"

definition combineDistributions :: "'d decimal_api \<Rightarrow> 'd distributionState \<Rightarrow> 'd distributionState" where
  "combineDistributions D st0 =
     (let st1 = fold (\<lambda>(i, a) st. st\<lparr>ds_result := AList.update i (dBigInt D a) (ds_result st)\<rparr>)
                  (ds_fixedAmounts st0) st0
      in fold (\<lambda>(i, a) st. st\<lparr>ds_result := AList.update i (dBigInt D a) (ds_result st),
                               ds_amountLeftDec := dSub D (ds_amountLeftDec st) a\<rparr>)
           (ds_percentAmounts st0) st1)"

fun processLeftDistribution ::
  "'d decimal_api \<Rightarrow> Distribution list \<Rightarrow> 'd distributionState \<Rightarrow> go_error + 'd distributionState" where
  "processLeftDistribution D [] st = Inr st"
| "processLeftDistribution D (part # parts) st =
     (if \<not> isLeftDistribution part then processLeftDistribution D parts st
      else if di_Identifier part \<in> fst ` set (ds_result st)
      then Inl (ErrorString ''multiple identifiers with 'left' distribution'')
      else Inr (st\<lparr>ds_result := AList.update (di_Identifier part) (dBigInt D (ds_amountLeftDec st)) (ds_result st)\<rparr>))"

text \<open>The largest allocation of the result map, and the correction of its rounding remainder.\<close>

definition largest_result_step :: "string \<times> int \<Rightarrow> string \<times> int \<Rightarrow> string \<times> int" where
  "largest_result_step p acc = (case (p, acc) of ((i, amount), (largestKey, largestAmount)) \<Rightarrow>
     if largestKey = [] \<or> largestAmount < amount \<or> (amount = largestAmount \<and> i < largestKey)
     then (i, amount) else (largestKey, largestAmount))"

definition balanceDistributions :: "'d decimal_api \<Rightarrow> 'd distributionState \<Rightarrow> 'd distributionState" where
  "balanceDistributions D st =
     (let sumDec = fold (\<lambda>(i, a) acc. dAdd D acc (dNewFromBigInt D a)) (ds_result st) (dNewFromBigInt D 0)
      in if dCmp D sumDec (ds_totalAmountDec st) = 0 then st
         else (let (largestKey, largestAmount) = fold largest_result_step (ds_result st) ([], 0)
               in if largestKey = [] then st
                  else (let diff = dSub D (ds_totalAmountDec st) sumDec
                        in case map_of (ds_result st) largestKey of
                             None \<Rightarrow> st
                           | Some v \<Rightarrow> st\<lparr>ds_result :=
                               AList.update largestKey (v + dBigInt D diff) (ds_result st)\<rparr>)))"

definition handleZeroAmount :: "Distribution list \<Rightarrow> (string \<times> int) list" where
  "handleZeroAmount distributions =
     fold (\<lambda>part result. AList.update (di_Identifier part) 0 result) distributions []"

text \<open>The validation loop over the identifiers; the count of left-over distributions comes out of it.\<close>

fun checkIdentifiers :: "string list \<Rightarrow> nat \<Rightarrow> Distribution list \<Rightarrow> go_error + nat" where
  "checkIdentifiers seen leftCount [] = Inr leftCount"
| "checkIdentifiers seen leftCount (part # parts) =
     (if di_Identifier part = [] \<or> di_Identifier part \<in> set seen
      then Inl (ErrorString ''distribution identifiers must be non-empty and unique'')
      else if di_Distribution part \<noteq> [] \<and> di_PreciseDistribution part \<noteq> []
      then Inl (ErrorString ''provide either distribution or precise_distribution, not both'')
      else checkIdentifiers (di_Identifier part # seen)
             (if isLeftDistribution part then leftCount + 1 else leftCount) parts)"

definition initial_state :: "'d decimal_api \<Rightarrow> int \<Rightarrow> int \<Rightarrow> 'd distributionState" where
  "initial_state D amt precision = \<lparr>
     ds_totalAmountDec = dNewFromBigInt D amt, ds_amountLeftDec = dNewFromBigInt D amt,
     ds_precisionDec = dNewFromBigInt D precision, ds_totalPercentage = dNewFromBigInt D 0,
     ds_fixedTotalDec = dNewFromBigInt D 0, ds_fixedAmounts = [], ds_percentAmounts = [], ds_result = []\<rparr>"

definition CalculateDistributionsPrecise ::
  "'d decimal_api \<Rightarrow> int option \<Rightarrow> Distribution list \<Rightarrow> int \<Rightarrow> go_error + (string \<times> int) list" where
  "CalculateDistributionsPrecise D totalPreciseAmount distributions precision = (case totalPreciseAmount of
       None \<Rightarrow> Inl (ErrorString ''total amount must be non-negative'')
     | Some amt \<Rightarrow>
         if amt < 0 then Inl (ErrorString ''total amount must be non-negative'')
         else if precision \<le> 0 then Inl (ErrorString ''precision must be positive'')
         else if distributions = [] then Inl (ErrorString ''distributions are required'')
         else bindE (checkIdentifiers [] 0 distributions) (\<lambda>leftCount.
           if 1 < leftCount then Inl (ErrorString ''multiple identifiers with 'left' distribution'')
           else bindE (processFixedDistributions D distributions (initial_state D amt precision)) (\<lambda>st1.
                bindE (processPercentageDistributions D distributions st1) (\<lambda>st2.
                guardE (validateDistributions D st2)
                 (if amt = 0 then Inr (handleZeroAmount distributions)
                  else (let st4 = combineDistributions D (adjustPercentageAmounts D st2)
                        in if dIsZero D (ds_fixedTotalDec st4) \<and> dIsZero D (ds_totalPercentage st4) \<and> leftCount = 0
                           then Inl (ErrorString ''distributions must allocate a positive amount'')
                           else bindE (processLeftDistribution D distributions st4) (\<lambda>st5.
                                Inr (ds_result (balanceDistributions D st5)))))))))"

text \<open>
  One leg of a split. \<open>uuid\<close> gives the identifier drawn for the leg with the given counter.
\<close>

definition splitLeg ::
  "'d decimal_api \<Rightarrow> (nat \<Rightarrow> string) \<Rightarrow> Transaction \<Rightarrow> Distribution \<Rightarrow> int \<Rightarrow> nat \<Rightarrow> Transaction" where
  "splitLeg D uuid t d preciseAmount counter =
     (let n1 = convertPreciseToDecimal D
                 (t\<lparr>tx_TransactionID := GenerateUUIDWithSuffix ''txn'' (uuid counter),
                    tx_PreciseAmount := Some preciseAmount\<rparr>);
          n2 = n1\<lparr>tx_Hash := HashTxn n1, tx_Sources := None, tx_Destinations := None,
                  tx_ParentTransaction := tx_TransactionID t\<rparr>;
          n3 = (case (tx_Sources t, tx_Destinations t) of
                  (Some (_ # _), _) \<Rightarrow> n2\<lparr>tx_Source := di_Identifier d\<rparr>
                | (_, Some (_ # _)) \<Rightarrow> n2\<lparr>tx_Destination := di_Identifier d\<rparr>
                | _ \<Rightarrow> n2)
      in n3\<lparr>tx_Reference := tx_Reference t @ ''-'' @ show_int (int counter)\<rparr>)"

text \<open>The identifier of the leg is written back into the distributions of the parent.\<close>

definition attribute_leg :: "string \<Rightarrow> string \<Rightarrow> Distribution list \<Rightarrow> Distribution list" where
  "attribute_leg identifier tid ds =
     map (\<lambda>x. if di_Identifier x = identifier then x\<lparr>di_TransactionID := tid\<rparr> else x) ds"

definition attribute_parent :: "string \<Rightarrow> string \<Rightarrow> Transaction \<Rightarrow> Transaction" where
  "attribute_parent identifier tid t = (case (tx_Sources t, tx_Destinations t) of
       (Some (x # xs), _) \<Rightarrow> t\<lparr>tx_Sources := Some (attribute_leg identifier tid (x # xs))\<rparr>
     | (_, Some (x # xs)) \<Rightarrow> t\<lparr>tx_Destinations := Some (attribute_leg identifier tid (x # xs))\<rparr>
     | _ \<Rightarrow> t)"

fun emitLegs ::
  "'d decimal_api \<Rightarrow> (nat \<Rightarrow> string) \<Rightarrow> (string \<times> int) list \<Rightarrow> Distribution list \<Rightarrow> nat \<Rightarrow> Transaction
     \<Rightarrow> Transaction \<times> Transaction list" where
  "emitLegs D uuid amounts [] counter t = (t, [])"
| "emitLegs D uuid amounts (d # ds) counter t =
     (case map_of amounts (di_Identifier d) of
        None \<Rightarrow> emitLegs D uuid amounts ds counter t
      | Some a \<Rightarrow>
          (let leg = splitLeg D uuid t d a counter;
               (t', legs) = emitLegs D uuid amounts ds (Suc counter)
                              (attribute_parent (di_Identifier d) (tx_TransactionID leg) t)
           in (t', leg # legs)))"

definition split_parties :: "Transaction \<Rightarrow> Distribution list" where
  "split_parties t = (case (tx_Sources t, tx_Destinations t) of
       (Some (x # xs), _) \<Rightarrow> x # xs
     | (_, Some (x # xs)) \<Rightarrow> x # xs
     | _ \<Rightarrow> [])"

definition SplitTransactionPrecise ::
  "'d decimal_api \<Rightarrow> (nat \<Rightarrow> string) \<Rightarrow> Transaction \<Rightarrow> go_error + (Transaction \<times> Transaction list)" where
  "SplitTransactionPrecise D uuid t =
     guardE (ValidatePrecision (tx_Precision t))
       (if f64_leq (tx_Precision t) f64_zero \<or> f64_leq (Fin (2 ^ 63)) (tx_Precision t)
        then Inl (ErrorString ''split precision must be a positive int64 scale'')
        else (case tx_Precision t of
            Fin r \<Rightarrow>
              bindE (CalculateDistributionsPrecise D (tx_PreciseAmount t) (split_parties t) (rat_trunc r)) (\<lambda>amounts.
                Inr (emitLegs D uuid amounts (split_parties t) 1 t))
          | _ \<Rightarrow> Inl (ErrorString ''split precision must be a positive int64 scale'')))"

subsection \<open>Lemmas\<close>

definition is_fixed :: "Distribution \<Rightarrow> bool" where
  "is_fixed p \<longleftrightarrow> \<not> isLeftDistribution p \<and> \<not> isPercentageDistribution p"

definition is_percentage :: "Distribution \<Rightarrow> bool" where
  "is_percentage p \<longleftrightarrow> \<not> isLeftDistribution p \<and> isPercentageDistribution p"

abbreviation keys :: "('k \<times> 'v) list \<Rightarrow> 'k set" where
  "keys al \<equiv> fst ` set al"

lemma parseFixedAmount_nonneg:
  assumes lib: "decimal_lib D val" and "0 \<le> val p" "parseFixedAmount D part p = Inr a"
  shows "0 \<le> val a"
  using assms(2,3) decimal_lib.val_NewFromBigInt [OF lib] decimal_lib.val_Mul [OF lib]
    decimal_lib.Sign_neg_iff [OF lib]
  by (auto simp: parseFixedAmount_def split: if_splits option.splits sum.splits)

lemma processFixedDistributions_inv:
  assumes lib: "decimal_lib D val"
    and "processFixedDistributions D parts st = Inr st'"
    and "distinct (map di_Identifier parts)" "di_Identifier ` set parts \<inter> keys (ds_fixedAmounts st) = {}"
    and "0 \<le> val (ds_precisionDec st)" "0 \<le> val (ds_amountLeftDec st)"
  shows "\<exists>ys. ds_fixedAmounts st' = ds_fixedAmounts st @ ys \<and>
    map fst ys = map di_Identifier (filter is_fixed parts) \<and> (\<forall>y \<in> set ys. 0 \<le> val (snd y)) \<and>
    val (ds_fixedTotalDec st') = val (ds_fixedTotalDec st) + fsum val ys \<and>
    val (ds_amountLeftDec st') = val (ds_amountLeftDec st) - fsum val ys \<and>
    0 \<le> val (ds_amountLeftDec st') \<and> ds_totalAmountDec st' = ds_totalAmountDec st \<and>
    ds_totalPercentage st' = ds_totalPercentage st \<and> ds_percentAmounts st' = ds_percentAmounts st \<and>
    ds_result st' = ds_result st"
  using assms(2-6)
proof (induction parts arbitrary: st)
  case Nil
  then show ?case by auto
next
  case (Cons part parts)
  show ?case
  proof (cases "is_fixed part")
    case False
    then have "processFixedDistributions D parts st = Inr st'"
      using Cons.prems(1) by (auto simp: is_fixed_def)
    from Cons.IH [OF this] Cons.prems(2-5) False show ?thesis by auto
  next
    case True
    then obtain a where a: "parseFixedAmount D part (ds_precisionDec st) = Inr a"
      and le: "\<not> 0 < dCmp D a (ds_amountLeftDec st)"
      using Cons.prems(1) by (auto simp: is_fixed_def bindE_Inr_iff split: if_splits)
    define st1 where "st1 = st\<lparr>
      ds_fixedAmounts := AList.update (di_Identifier part) a (ds_fixedAmounts st),
      ds_fixedTotalDec := dAdd D (ds_fixedTotalDec st) a,
      ds_amountLeftDec := dSub D (ds_amountLeftDec st) a\<rparr>"
    have rec: "processFixedDistributions D parts st1 = Inr st'"
      using Cons.prems(1) True a le by (simp add: is_fixed_def st1_def)
    have upd: "ds_fixedAmounts st1 = ds_fixedAmounts st @ [(di_Identifier part, a)]"
      using Cons.prems(3) by (simp add: st1_def update_new)
    have val1: "0 \<le> val a" "val a \<le> val (ds_amountLeftDec st)"
      using parseFixedAmount_nonneg [OF lib Cons.prems(4) a] le decimal_lib.Cmp_gt_iff [OF lib] by auto
    have prems: "distinct (map di_Identifier parts)" "0 \<le> val (ds_precisionDec st1)" "0 \<le> val (ds_amountLeftDec st1)"
      "di_Identifier ` set parts \<inter> keys (ds_fixedAmounts st1) = {}"
      using Cons.prems(2-5) val1 upd by (auto simp: st1_def decimal_lib.val_Sub [OF lib])
    from Cons.IH [OF rec prems(1,4,2,3)] obtain ys where
      ys: "ds_fixedAmounts st' = ds_fixedAmounts st1 @ ys"
        "map fst ys = map di_Identifier (filter is_fixed parts)" "\<forall>y \<in> set ys. 0 \<le> val (snd y)"
        "val (ds_fixedTotalDec st') = val (ds_fixedTotalDec st1) + fsum val ys"
        "val (ds_amountLeftDec st') = val (ds_amountLeftDec st1) - fsum val ys" "0 \<le> val (ds_amountLeftDec st')"
      and rest: "ds_totalAmountDec st' = ds_totalAmountDec st1" "ds_totalPercentage st' = ds_totalPercentage st1"
        "ds_percentAmounts st' = ds_percentAmounts st1" "ds_result st' = ds_result st1" by blast
    show ?thesis
      by (rule exI [of _ "(di_Identifier part, a) # ys"])
         (use ys rest upd val1 True in \<open>simp add: st1_def decimal_lib.val_Add [OF lib] decimal_lib.val_Sub [OF lib]\<close>)
  qed
qed

lemma processPercentageDistributions_inv:
  assumes lib: "decimal_lib D val"
    and "processPercentageDistributions D parts st = Inr st'"
    and "distinct (map di_Identifier parts)" "di_Identifier ` set parts \<inter> keys (ds_percentAmounts st) = {}"
    and "0 \<le> val (ds_totalAmountDec st)"
  shows "\<exists>ys. ds_percentAmounts st' = ds_percentAmounts st @ ys \<and>
    map fst ys = map di_Identifier (filter is_percentage parts) \<and> (\<forall>y \<in> set ys. 0 \<le> val (snd y)) \<and>
    fsum val ys \<le> val (ds_totalAmountDec st) * (val (ds_totalPercentage st') - val (ds_totalPercentage st)) / 100 \<and>
    ds_totalAmountDec st' = ds_totalAmountDec st \<and> ds_amountLeftDec st' = ds_amountLeftDec st \<and>
    ds_fixedTotalDec st' = ds_fixedTotalDec st \<and> ds_fixedAmounts st' = ds_fixedAmounts st \<and>
    ds_result st' = ds_result st"
  using assms(2-5)
proof (induction parts arbitrary: st)
  case Nil
  then show ?case by auto
next
  case (Cons part parts)
  show ?case
  proof (cases "is_percentage part")
    case False
    then have "processPercentageDistributions D parts st = Inr st'"
      using Cons.prems(1) by (auto simp: is_percentage_def)
    from Cons.IH [OF this] Cons.prems(2-4) False show ?thesis by auto
  next
    case True
    then obtain q where q: "parseMonetaryDecimal D (butlast (di_Distribution part)) = Inr q" "\<not> dSign D q < 0"
      using Cons.prems(1) by (auto simp: is_percentage_def split: sum.splits if_splits)
    define raw where "raw = dShift D (dMul D (ds_totalAmountDec st) q) (-2)"
    define a where "a = (if 0 < dSign D raw \<and> dCmp D raw (dNewFromBigInt D 1) < 0 then dNewFromBigInt D 0 else raw)"
    define st1 where "st1 = st\<lparr>ds_totalPercentage := dAdd D (ds_totalPercentage st) q,
      ds_percentAmounts := AList.update (di_Identifier part) a (ds_percentAmounts st)\<rparr>"
    have rec: "processPercentageDistributions D parts st1 = Inr st'"
      using Cons.prems(1) True q unfolding st1_def a_def raw_def
      by (simp add: is_percentage_def Let_def split del: if_split)
    have upd: "ds_percentAmounts st1 = ds_percentAmounts st @ [(di_Identifier part, a)]"
      using Cons.prems(3) by (simp add: st1_def update_new)
    have q0: "0 \<le> val q" using q(2) decimal_lib.Sign_neg_iff [OF lib] by auto
    have vraw: "val raw = val (ds_totalAmountDec st) * val q / 100"
      by (simp add: raw_def decimal_lib.val_Shift [OF lib] decimal_lib.val_Mul [OF lib] pow10_def)
    have raw0: "0 \<le> val raw" unfolding vraw using q0 Cons.prems(4) by simp
    have val1: "0 \<le> val a" "val a \<le> val raw"
      using raw0
      by (auto simp: a_def decimal_lib.val_NewFromBigInt [OF lib] decimal_lib.Sign_pos_iff [OF lib])
    have prems: "distinct (map di_Identifier parts)" "0 \<le> val (ds_totalAmountDec st1)"
      "di_Identifier ` set parts \<inter> keys (ds_percentAmounts st1) = {}"
      using Cons.prems(2-4) upd by (auto simp: st1_def)
    from Cons.IH [OF rec prems(1,3,2)] obtain ys where
      ys: "ds_percentAmounts st' = ds_percentAmounts st1 @ ys"
        "map fst ys = map di_Identifier (filter is_percentage parts)" "\<forall>y \<in> set ys. 0 \<le> val (snd y)"
      and le: "fsum val ys \<le> val (ds_totalAmountDec st) * (val (ds_totalPercentage st') - val (ds_totalPercentage st1)) / 100"
      and rest: "ds_totalAmountDec st' = ds_totalAmountDec st1" "ds_amountLeftDec st' = ds_amountLeftDec st1"
        "ds_fixedTotalDec st' = ds_fixedTotalDec st1" "ds_fixedAmounts st' = ds_fixedAmounts st1" "ds_result st' = ds_result st1"
      by (auto simp: st1_def)
    have "val (ds_totalPercentage st1) = val (ds_totalPercentage st) + val q"
      by (simp add: st1_def decimal_lib.val_Add [OF lib])
    then have "val a + fsum val ys \<le> val (ds_totalAmountDec st) * (val (ds_totalPercentage st') - val (ds_totalPercentage st)) / 100"
      using le val1(2) vraw by (simp add: field_simps)
    then show ?thesis
      by (intro exI [of _ "(di_Identifier part, a) # ys"])
         (use ys rest upd val1 True in \<open>simp add: st1_def\<close>)
  qed
qed

lemma percentageTarget_val:
  "decimal_lib D val \<Longrightarrow> val (percentageTarget D st) = val (ds_totalAmountDec st) * val (ds_totalPercentage st) / 100"
  by (simp add: percentageTarget_def decimal_lib.val_Shift decimal_lib.val_Mul pow10_def)

lemma adjustPercentageAmounts_inv:
  assumes lib: "decimal_lib D val"
    and nonneg: "\<forall>y \<in> set (ds_percentAmounts st). 0 \<le> val (snd y)"
    and le: "fsum val (ds_percentAmounts st) \<le> val (percentageTarget D st)"
  shows "\<exists>ys. adjustPercentageAmounts D st = st\<lparr>ds_percentAmounts := ys\<rparr> \<and>
    map fst ys = map fst (ds_percentAmounts st) \<and> (\<forall>y \<in> set ys. 0 \<le> val (snd y)) \<and>
    fsum val ys \<le> val (percentageTarget D st)"
proof -
  define cur where "cur = fold (\<lambda>(i, a) acc. dAdd D acc a) (ds_percentAmounts st) (dNewFromBigInt D 0)"
  define diff where "diff = dSub D (percentageTarget D st) cur"
  have cur: "val cur = fsum val (ds_percentAmounts st)"
    unfolding cur_def
    by (subst fsum_fold [where h = val]) (auto simp: decimal_lib.val_Add [OF lib] decimal_lib.val_NewFromBigInt [OF lib])
  then have diff: "val diff = val (percentageTarget D st) - fsum val (ds_percentAmounts st)" "0 \<le> val diff"
    using le by (simp_all add: diff_def decimal_lib.val_Sub [OF lib])
  consider (same) "adjustPercentageAmounts D st = st"
    | (moved) k a where "map_of (ds_percentAmounts st) k = Some a"
        "adjustPercentageAmounts D st = st\<lparr>ds_percentAmounts := AList.update k (dAdd D a diff) (ds_percentAmounts st)\<rparr>"
    by (force simp: adjustPercentageAmounts_def cur_def [symmetric] diff_def [symmetric] Let_def
        split: if_splits prod.splits option.splits)
  then show ?thesis
  proof cases
    case same
    then show ?thesis using nonneg le by (intro exI [of _ "ds_percentAmounts st"]) simp
  next
    case (moved k a)
    let ?ys = "AList.update k (dAdd D a diff) (ds_percentAmounts st)"
    have k: "k \<in> keys (ds_percentAmounts st)" "0 \<le> val a"
      using nonneg map_of_SomeD [OF moved(1)] by force+
    have "set ?ys \<subseteq> insert (k, dAdd D a diff) (set (ds_percentAmounts st))"
      by (rule set_update_subset)
    then have "\<forall>y \<in> set ?ys. 0 \<le> val (snd y)"
      using nonneg k diff(2) by (auto simp: decimal_lib.val_Add [OF lib])
    moreover have "fsum val ?ys = val (percentageTarget D st)"
      by (simp add: fsum_update_old [OF moved(1)] decimal_lib.val_Add [OF lib] diff(1))
    ultimately show ?thesis
      using keys_update_old [OF k(1)] moved(2) by (intro exI [of _ ?ys]) simp
  qed
qed

lemma fold_combine:
  "fold (\<lambda>(i, a) st. st\<lparr>ds_result := AList.update i (f a) (ds_result st)\<rparr>) xs st =
     st\<lparr>ds_result := fold (\<lambda>(i, a) r. AList.update i (f a) r) xs (ds_result st)\<rparr>"
  "fold (\<lambda>(i, a) st. st\<lparr>ds_result := AList.update i (f a) (ds_result st), ds_amountLeftDec := g (ds_amountLeftDec st) a\<rparr>) xs st =
     st\<lparr>ds_result := fold (\<lambda>(i, a) r. AList.update i (f a) r) xs (ds_result st),
        ds_amountLeftDec := fold (\<lambda>(i, a) l. g l a) xs (ds_amountLeftDec st)\<rparr>"
  by (induction xs arbitrary: st) (auto simp: split_beta)

lemma combineDistributions_inv:
  assumes lib: "decimal_lib D val"
    and d: "distinct (map fst (ds_fixedAmounts st))" "distinct (map fst (ds_percentAmounts st))"
      "keys (ds_fixedAmounts st) \<inter> keys (ds_percentAmounts st) = {}" "ds_result st = []"
  shows "\<exists>left. combineDistributions D st = st\<lparr>
      ds_result := map (\<lambda>(i, a). (i, dBigInt D a)) (ds_fixedAmounts st @ ds_percentAmounts st),
      ds_amountLeftDec := left\<rparr> \<and>
    val left = val (ds_amountLeftDec st) - fsum val (ds_percentAmounts st)"
proof -
  let ?left = "fold (\<lambda>(i, a) l. dSub D l a) (ds_percentAmounts st) (ds_amountLeftDec st)"
  let ?fixed = "map (\<lambda>(i, a). (i, dBigInt D a)) (ds_fixedAmounts st)"
  have "- val ?left = - val (ds_amountLeftDec st) + fsum val (ds_percentAmounts st)"
    by (rule fsum_fold [where f = "\<lambda>x. - val x"]) (auto simp: decimal_lib.val_Sub [OF lib])
  moreover have "keys ?fixed = keys (ds_fixedAmounts st)" by force
  then have "fold (\<lambda>(i, a) r. AList.update i (dBigInt D a) r) (ds_percentAmounts st) ?fixed =
      ?fixed @ map (\<lambda>(i, a). (i, dBigInt D a)) (ds_percentAmounts st)"
    using d by (intro fold_update_new) auto
  moreover have "fold (\<lambda>(i, a) r. AList.update i (dBigInt D a) r) (ds_fixedAmounts st) [] = ?fixed"
    using fold_update_new [OF d(1), of "[]" "dBigInt D"] by simp
  ultimately show ?thesis
    using d(4) by (intro exI [of _ ?left]) (simp add: combineDistributions_def Let_def fold_combine)
qed

text \<open>Truncating non-negative amounts never raises the sum.\<close>

lemma fsum_BigInt_le:
  assumes lib: "decimal_lib D val" and "\<forall>y \<in> set ys. 0 \<le> val (snd y)"
  shows "of_int (asum (map (\<lambda>(i, a). (i, dBigInt D a)) ys)) \<le> fsum val ys"
    and "\<forall>y \<in> set (map (\<lambda>(i, a). (i, dBigInt D a)) ys). 0 \<le> snd y"
proof -
  have floor: "dBigInt D a = \<lfloor>val a\<rfloor>" if "0 \<le> val a" for a
    using that by (simp add: decimal_lib.BigInt_val [OF lib] rat_trunc_def)
  show "\<forall>y \<in> set (map (\<lambda>(i, a). (i, dBigInt D a)) ys). 0 \<le> snd y"
    using assms(2) floor by auto
  show "of_int (asum (map (\<lambda>(i, a). (i, dBigInt D a)) ys)) \<le> fsum val ys"
    using assms(2)
  proof (induction ys)
    case (Cons y ys)
    have "of_int (dBigInt D (snd y)) \<le> val (snd y)" using Cons.prems floor by simp
    with Cons show ?case by (auto simp: split_beta)
  qed simp
qed

lemma processLeftDistribution_inv:
  assumes "processLeftDistribution D parts st = Inr st'"
  shows "case filter isLeftDistribution parts of
      [] \<Rightarrow> st' = st
    | p # _ \<Rightarrow> di_Identifier p \<notin> keys (ds_result st) \<and>
        st' = st\<lparr>ds_result := ds_result st @ [(di_Identifier p, dBigInt D (ds_amountLeftDec st))]\<rparr>"
  using assms
  by (induction D parts st rule: processLeftDistribution.induct) (auto simp: update_new split: if_splits)

lemma checkIdentifiers_inv:
  assumes "checkIdentifiers seen n parts = Inr m"
  shows "distinct (map di_Identifier parts) \<and> [] \<notin> di_Identifier ` set parts \<and>
    di_Identifier ` set parts \<inter> set seen = {} \<and> m = n + length (filter isLeftDistribution parts)"
  using assms by (induction seen n parts rule: checkIdentifiers.induct) (auto split: if_splits)

lemma fold_largest_key:
  assumes "\<And>p acc. fst (step p acc) = fst p \<or> fst (step p acc) = fst acc"
    and "\<And>p acc. fst acc = [] \<Longrightarrow> step p acc = p"
    and "[] \<notin> keys rs" "rs \<noteq> []"
  shows "fst (fold step rs ([], z)) \<in> keys rs"
proof -
  have later: "fst (fold step xs acc) \<in> insert (fst acc) (keys xs)" for xs acc
  proof (induction xs arbitrary: acc)
    case (Cons x xs)
    from Cons [of "step x acc"] assms(1) [of x acc] show ?case by auto
  qed simp
  obtain r rs' where "rs = r # rs'" using assms(4) by (cases rs) auto
  with later [of rs' r] assms(2) [of "([], z)" r] show ?thesis by simp
qed

lemma largest_result_key:
  "[] \<notin> keys rs \<Longrightarrow> rs \<noteq> [] \<Longrightarrow> fst (fold largest_result_step rs ([], 0)) \<in> keys rs"
  by (rule fold_largest_key) (auto simp: largest_result_step_def split: prod.splits)

lemma fsum_of_int: "fsum of_int al = (of_int (asum al) :: rat)"
  by (induction al) auto

lemma balance_sum:
  assumes lib: "decimal_lib D val"
  shows "val (fold (\<lambda>(i, a) acc. dAdd D acc (dNewFromBigInt D a)) rs (dNewFromBigInt D 0)) = of_int (asum rs)"
proof -
  have "val (fold (\<lambda>(i, a) acc. dAdd D acc (dNewFromBigInt D a)) rs (dNewFromBigInt D 0)) =
      val (dNewFromBigInt D 0) + fsum of_int rs"
    by (rule fsum_fold) (auto simp: decimal_lib.val_Add [OF lib] decimal_lib.val_NewFromBigInt [OF lib])
  then show ?thesis by (simp add: fsum_of_int decimal_lib.val_NewFromBigInt [OF lib])
qed

lemma balanceDistributions_inv:
  assumes lib: "decimal_lib D val" and amt: "val (ds_totalAmountDec st) = of_int amt"
    and ne: "[] \<notin> keys (ds_result st)" "ds_result st \<noteq> []"
    and nonneg: "\<forall>y \<in> set (ds_result st). 0 \<le> snd y" and le: "asum (ds_result st) \<le> amt"
  defines "r \<equiv> ds_result (balanceDistributions D st)"
  shows "asum r = amt \<and> map fst r = map fst (ds_result st) \<and> (\<forall>y \<in> set r. 0 \<le> snd y)"
proof -
  define s where "s = fold (\<lambda>(i, a) acc. dAdd D acc (dNewFromBigInt D a)) (ds_result st) (dNewFromBigInt D 0)"
  have s: "val s = of_int (asum (ds_result st))" unfolding s_def by (rule balance_sum [OF lib])
  have diff: "dBigInt D (dSub D (ds_totalAmountDec st) s) = amt - asum (ds_result st)"
    by (simp add: decimal_lib.BigInt_val [OF lib] decimal_lib.val_Sub [OF lib] s amt flip: of_int_diff)
  show ?thesis
  proof (cases "amt = asum (ds_result st)")
    case True
    then have "dCmp D s (ds_totalAmountDec st) = 0" by (simp add: decimal_lib.Cmp_eq_iff [OF lib] s amt)
    then show ?thesis using True nonneg by (simp add: r_def balanceDistributions_def s_def [symmetric])
  next
    case False
    obtain k a where k: "fold largest_result_step (ds_result st) ([], 0) = (k, a)" by (cases "fold largest_result_step (ds_result st) ([], 0)")
    with largest_result_key [OF ne] have kin: "k \<in> keys (ds_result st)" by simp
    with ne(1) have kne: "k \<noteq> []" by blast
    from kin obtain v where v: "map_of (ds_result st) k = Some v" by (metis domD dom_map_of_conv_image_fst)
    have "dCmp D s (ds_totalAmountDec st) \<noteq> 0" using False by (simp add: decimal_lib.Cmp_eq_iff [OF lib] s amt)
    then have r: "r = AList.update k (v + (amt - asum (ds_result st))) (ds_result st)"
      using kne v by (auto simp: r_def balanceDistributions_def s_def [symmetric] k diff Let_def)
    have "fsum id r = fsum id (ds_result st) - id v + id (v + (amt - asum (ds_result st)))"
      unfolding r by (rule fsum_update_old [OF v])
    then have "asum r = amt" by (simp add: fsum_def asum_def)
    moreover have "0 \<le> v" using nonneg map_of_SomeD [OF v] by force
    then have "\<forall>y \<in> set r. 0 \<le> snd y"
      using set_update_subset [of k _ "ds_result st"] nonneg le unfolding r by fastforce
    ultimately show ?thesis using keys_update_old [OF kin] r by simp
  qed
qed

lemma handleZeroAmount_eq:
  assumes "distinct (map di_Identifier parts)"
  shows "handleZeroAmount parts = map (\<lambda>p. (di_Identifier p, 0)) parts"
proof -
  have "handleZeroAmount parts =
      fold (\<lambda>(i, a) r. AList.update i a r) (map (\<lambda>p. (di_Identifier p, 0)) parts) []"
    by (simp add: handleZeroAmount_def fold_map comp_def)
  also have "\<dots> = map (\<lambda>p. (di_Identifier p, 0)) parts"
    using fold_update_new [of "map (\<lambda>p. (di_Identifier p, 0)) parts" "[]" "\<lambda>x. x"] assms
    by (simp add: comp_def)
  finally show ?thesis .
qed

text \<open>The ordinary run: the state before the remainder is assigned.\<close>

lemma split_run:
  assumes lib: "decimal_lib D val" and pos: "0 \<le> amt" "0 < p" and ne: "parts \<noteq> []"
    and ids: "checkIdentifiers [] 0 parts = Inr n" "n \<le> 1"
    and run: "processFixedDistributions D parts (initial_state D amt p) = Inr st1"
      "processPercentageDistributions D parts st1 = Inr st2" "validateDistributions D st2 = None"
      "processLeftDistribution D parts (combineDistributions D (adjustPercentageAmounts D st2)) = Inr st5"
  shows "val (ds_totalAmountDec st5) = of_int amt \<and> keys (ds_result st5) = di_Identifier ` set parts \<and>
    distinct (map fst (ds_result st5)) \<and> (\<forall>y \<in> set (ds_result st5). 0 \<le> snd y) \<and> asum (ds_result st5) \<le> amt"
proof -
  note valD = decimal_lib.val_NewFromBigInt [OF lib] decimal_lib.val_Add [OF lib] percentageTarget_val [OF lib]
  have id: "distinct (map di_Identifier parts)" "n = length (filter isLeftDistribution parts)"
    using checkIdentifiers_inv [OF ids(1)] by auto
  obtain fs where fs: "ds_fixedAmounts st1 = fs" "map fst fs = map di_Identifier (filter is_fixed parts)"
      "\<forall>y \<in> set fs. 0 \<le> val (snd y)" "val (ds_fixedTotalDec st1) = fsum val fs"
      "val (ds_amountLeftDec st1) = of_int amt - fsum val fs"
    and st1: "val (ds_totalAmountDec st1) = of_int amt" "val (ds_totalPercentage st1) = 0"
      "ds_percentAmounts st1 = []" "ds_result st1 = []"
    using processFixedDistributions_inv [OF lib run(1) id(1)] pos by (auto simp: initial_state_def valD)
  obtain ps where ps: "ds_percentAmounts st2 = ps" "map fst ps = map di_Identifier (filter is_percentage parts)"
      "\<forall>y \<in> set ps. 0 \<le> val (snd y)" "fsum val ps \<le> of_int amt * val (ds_totalPercentage st2) / 100"
    and st2: "ds_totalAmountDec st2 = ds_totalAmountDec st1" "ds_amountLeftDec st2 = ds_amountLeftDec st1"
      "ds_fixedTotalDec st2 = ds_fixedTotalDec st1" "ds_fixedAmounts st2 = fs" "ds_result st2 = []"
    using processPercentageDistributions_inv [OF lib run(2) id(1)] pos st1 fs(1) by auto
  have cap: "fsum val fs + val (percentageTarget D st2) \<le> of_int amt"
    using run(3) fs(4) st1 st2 by (auto simp: validateDistributions_def valD decimal_lib.Cmp_gt_iff [OF lib] split: if_splits)
  have target: "val (percentageTarget D st2) = of_int amt * val (ds_totalPercentage st2) / 100"
    by (simp add: valD st1 st2)
  obtain qs where adj: "adjustPercentageAmounts D st2 = st2\<lparr>ds_percentAmounts := qs\<rparr>"
    and qs: "map fst qs = map fst ps" "\<forall>y \<in> set qs. 0 \<le> val (snd y)" "fsum val qs \<le> val (percentageTarget D st2)"
    using adjustPercentageAmounts_inv [OF lib, of st2] ps target by auto
  have kinds: "keys fs = di_Identifier ` {x \<in> set parts. is_fixed x}" "keys qs = di_Identifier ` {x \<in> set parts. is_percentage x}"
    using arg_cong [OF fs(2), of set] arg_cong [OF qs(1), of set] arg_cong [OF ps(2), of set] by auto
  have inj: "inj_on di_Identifier (set parts)" and dk: "distinct (map fst fs)" "distinct (map fst qs)"
    using id(1) fs(2) qs(1) ps(2) by (auto simp: distinct_map intro: inj_on_subset)
  have disj: "keys fs \<inter> keys qs = {}"
    unfolding kinds using inj by (auto simp: inj_on_def is_fixed_def is_percentage_def)
  obtain left where comb: "combineDistributions D (adjustPercentageAmounts D st2) = st2\<lparr>ds_percentAmounts := qs,
      ds_result := map (\<lambda>(i, a). (i, dBigInt D a)) (fs @ qs), ds_amountLeftDec := left\<rparr>"
    and left: "val left = of_int amt - fsum val fs - fsum val qs"
    using combineDistributions_inv [OF lib, of "adjustPercentageAmounts D st2"] dk disj adj st2 fs(5) by auto
  define B where "B = map (\<lambda>(i, a). (i, dBigInt D a)) (fs @ qs)"
  have nn: "\<forall>y \<in> set (fs @ qs). 0 \<le> val (snd y)" using fs(3) qs(2) by auto
  have base: "of_int (asum B) \<le> fsum val fs + fsum val qs" "\<forall>y \<in> set B. 0 \<le> snd y"
    using fsum_BigInt_le [OF lib nn] by (simp_all add: B_def)
  have kb: "map fst B = map fst fs @ map fst qs" by (auto simp: B_def split_beta)
  have kbase: "keys B = keys fs \<union> keys qs" by (simp only: set_map [symmetric] kb set_append)
  have left0: "0 \<le> val left" using left cap qs(3) by simp
  then have leftn: "of_int (dBigInt D left) \<le> val left" "0 \<le> dBigInt D left"
    by (simp_all add: decimal_lib.BigInt_val [OF lib] rat_trunc_def)
  show ?thesis
  proof (cases "filter isLeftDistribution parts")
    case Nil
    then have all: "x \<in> set parts \<Longrightarrow> is_fixed x \<or> is_percentage x" for x
      by (auto simp: filter_empty_conv is_fixed_def is_percentage_def)
    have st5: "st5 = combineDistributions D (adjustPercentageAmounts D st2)"
      using processLeftDistribution_inv [OF run(4)] Nil by simp
    have "(of_int (asum B) :: rat) \<le> of_int amt" using base(1) cap qs(3) by linarith
    moreover have "keys B = di_Identifier ` set parts"
      unfolding kbase kinds using all by auto
    moreover have "ds_result st5 = B" "ds_totalAmountDec st5 = ds_totalAmountDec st1"
      using st5 comb st2 by (simp_all add: B_def)
    ultimately show ?thesis using base(2) kb dk disj st1 by simp
  next
    case (Cons l ls)
    then have "length ls = 0" using ids(2) id(2) by simp
    then have one: "filter isLeftDistribution parts = [l]" using Cons by simp
    have st5: "di_Identifier l \<notin> keys B" "ds_result st5 = B @ [(di_Identifier l, dBigInt D left)]"
      "ds_totalAmountDec st5 = ds_totalAmountDec st1"
      using processLeftDistribution_inv [OF run(4)] Cons comb st2 by (auto simp: B_def)
    have "(of_int (asum B + dBigInt D left) :: rat) \<le> of_int amt" using base(1) leftn(1) left by simp
    moreover have "set parts = {x \<in> set parts. is_fixed x} \<union> {x \<in> set parts. is_percentage x} \<union> {l}"
      using arg_cong [OF one, of set] by (auto simp: is_fixed_def is_percentage_def)
    then have "keys (ds_result st5) = di_Identifier ` set parts"
      unfolding st5(2) set_append image_Un kbase kinds by auto
    ultimately show ?thesis
      using st5 base(2) kb dk disj st1 leftn(2) by (auto simp: kbase)
  qed
qed

lemma findLargestDecimal_key:
  "[] \<notin> keys xs \<Longrightarrow> xs \<noteq> [] \<Longrightarrow> fst (findLargestDecimal D xs) \<in> keys xs"
  unfolding findLargestDecimal_def
  by (rule fold_largest_key) (auto simp: largest_step_def split: prod.splits)

text \<open>
  Ranging over a map to find its best entry: the entry chosen is the one with the least
  measure, hence the same for every iteration order when the measure tells the entries apart.
\<close>

lemma fold_best:
  fixes f :: "string \<times> 'v \<Rightarrow> 'o :: linorder"
  assumes step: "\<And>p acc. step p acc = (if fst acc = [] \<or> f p < f acc then p else acc)"
    and "[] \<notin> keys xs" "fst acc \<noteq> []"
  shows "fold step xs acc \<in> insert acc (set xs) \<and> (\<forall>q \<in> insert acc (set xs). f (fold step xs acc) \<le> f q)"
  using assms(2,3)
proof (induction xs arbitrary: acc)
  case (Cons x xs)
  have "fst (step x acc) \<noteq> []" "step x acc \<in> {x, acc}" "f (step x acc) \<le> f x" "f (step x acc) \<le> f acc"
    using Cons.prems by (auto simp: step)
  moreover from Cons.IH [of "step x acc"] this(1) Cons.prems
  have "fold step xs (step x acc) \<in> insert (step x acc) (set xs)"
    "\<forall>q \<in> insert (step x acc) (set xs). f (fold step xs (step x acc)) \<le> f q" by auto
  ultimately show ?case by (force intro: order_trans)
qed simp

lemma fold_best_unique:
  fixes f :: "string \<times> 'v \<Rightarrow> 'o :: linorder"
  assumes step: "\<And>p acc. step p acc = (if fst acc = [] \<or> f p < f acc then p else acc)"
    and ne: "[] \<notin> keys xs" and perm: "mset xs = mset ys" and inj: "inj_on f (set xs)"
  shows "fold step xs ([], z) = fold step ys ([], z)"
proof (cases xs)
  case Nil
  then show ?thesis using perm by simp
next
  case (Cons x xs')
  then obtain y ys' where ys: "ys = y # ys'" using perm by (cases ys) auto
  have same: "set xs = set ys" using perm by (metis set_mset_mset)
  have start: "step p ([], z) = p" for p by (simp add: step)
  have "fold step xs' x \<in> set xs" "\<forall>q \<in> set xs. f (fold step xs' x) \<le> f q"
    using fold_best [OF step, of xs' x] ne Cons by auto
  moreover have "fold step ys' y \<in> set ys" "\<forall>q \<in> set ys. f (fold step ys' y) \<le> f q"
    using fold_best [OF step, of ys' y] ne ys same by auto
  ultimately have "fold step xs' x = fold step ys' y"
    using inj same by (metis antisym inj_onD)
  then show ?thesis by (simp add: Cons ys start)
qed

lemma findLargestDecimal_order:
  assumes lib: "decimal_lib D val" and "[] \<notin> keys xs" "distinct (map fst xs)" "mset xs = mset ys"
  shows "findLargestDecimal D xs = findLargestDecimal D ys"
  unfolding findLargestDecimal_def
proof (rule fold_best_unique [where f = "\<lambda>p. (- val (snd p), fst p)"])
  show "inj_on (\<lambda>p. (- val (snd p), fst p)) (set xs)"
    using assms(3) by (auto simp: distinct_map inj_on_def)
qed (use assms in \<open>auto simp: largest_step_def decimal_lib.Cmp_gt_iff [OF lib] decimal_lib.Cmp_eq_iff [OF lib]\<close>)

lemma largest_result_order:
  assumes "[] \<notin> keys xs" "distinct (map fst xs)" "mset xs = mset ys"
  shows "fold largest_result_step xs ([], 0) = fold largest_result_step ys ([], 0)"
proof (rule fold_best_unique [where f = "\<lambda>p. (- snd p, fst p)"])
  show "inj_on (\<lambda>p. (- snd p, fst p)) (set xs)"
    using assms(2) by (auto simp: distinct_map inj_on_def)
qed (use assms in \<open>auto simp: largest_result_step_def\<close>)

lemma CalculateDistributionsPrecise_result:
  assumes "decimal_lib D val"
    and "CalculateDistributionsPrecise D (Some amt) parts p = Inr r"
  shows "asum r = amt \<and> (\<forall>y \<in> set r. 0 \<le> snd y) \<and> distinct (map fst r) \<and>
    fst ` set r = di_Identifier ` set parts \<and>
    parts \<noteq> [] \<and> distinct (map di_Identifier parts)"
proof -
  from assms(2) obtain n st1 st2 where
    pos: "0 \<le> amt" "0 < p" "parts \<noteq> []" and ids: "checkIdentifiers [] 0 parts = Inr n" "n \<le> 1"
    and run: "processFixedDistributions D parts (initial_state D amt p) = Inr st1"
      "processPercentageDistributions D parts st1 = Inr st2" "validateDistributions D st2 = None"
    and res: "amt = 0 \<and> r = handleZeroAmount parts \<or>
      (\<exists>st5. processLeftDistribution D parts (combineDistributions D (adjustPercentageAmounts D st2)) = Inr st5 \<and>
        r = ds_result (balanceDistributions D st5))"
    by (auto simp: CalculateDistributionsPrecise_def bindE_Inr_iff guardE_Inr_iff Let_def not_less not_le
        split: if_splits)
  from res show ?thesis
  proof
    assume z: "amt = 0 \<and> r = handleZeroAmount parts"
    have "distinct (map di_Identifier parts)" using checkIdentifiers_inv [OF ids(1)] by simp
    moreover have "asum (map (\<lambda>p. (di_Identifier p, 0)) xs) = 0" for xs by (induction xs) auto
    ultimately show ?thesis using z pos(3) by (auto simp: handleZeroAmount_eq comp_def image_image)
  next
    assume "\<exists>st5. processLeftDistribution D parts (combineDistributions D (adjustPercentageAmounts D st2)) = Inr st5 \<and>
        r = ds_result (balanceDistributions D st5)"
    then obtain st5 where left: "processLeftDistribution D parts (combineDistributions D (adjustPercentageAmounts D st2)) = Inr st5"
      and r: "r = ds_result (balanceDistributions D st5)" by blast
    have st5: "val (ds_totalAmountDec st5) = of_int amt" "keys (ds_result st5) = di_Identifier ` set parts"
      "distinct (map fst (ds_result st5))" "\<forall>y \<in> set (ds_result st5). 0 \<le> snd y" "asum (ds_result st5) \<le> amt"
      using split_run [OF assms(1) pos ids run left] by auto
    have "[] \<notin> keys (ds_result st5)" "ds_result st5 \<noteq> []"
      using st5(2) checkIdentifiers_inv [OF ids(1)] pos(3) by auto
    from balanceDistributions_inv [OF assms(1) st5(1) this st5(4,5)] r
    have fin: "asum r = amt" "map fst r = map fst (ds_result st5)" "\<forall>y \<in> set r. 0 \<le> snd y" by auto
    moreover have "keys r = keys (ds_result st5)" by (simp only: set_map [symmetric] fin(2))
    ultimately show ?thesis using st5(2,3) pos(3) checkIdentifiers_inv [OF ids(1)] by simp
  qed
qed

subsection \<open>Properties\<close>

text \<open>
  C6: every split conserves its total. When \<open>CalculateDistributionsPrecise\<close> accepts, the
  result has exactly one entry per distribution identifier, no allocation is negative, and the
  allocations sum to the total amount, whatever mix of fixed, percentage and left-over parts
  was given.
\<close>

theorem CalculateDistributionsPrecise_conserves:
  assumes "decimal_lib D val"
    and "CalculateDistributionsPrecise D (Some amt) parts p = Inr r"
  shows "asum r = amt \<and> (\<forall>y \<in> set r. 0 \<le> snd y) \<and> distinct (map fst r) \<and>
    fst ` set r = di_Identifier ` set parts"
  using CalculateDistributionsPrecise_result [OF assms] by simp

definition ex_part :: "string \<Rightarrow> string \<Rightarrow> string \<Rightarrow> Distribution" where
  "ex_part i d p = \<lparr>di_Identifier = i, di_Distribution = d, di_PreciseDistribution = p, di_TransactionID = []\<rparr>"

definition ex_parts :: "Distribution list" where
  "ex_parts = [ex_part ''a'' [] ''10'', ex_part ''b'' ''50%'' [], ex_part ''c'' ''left'' []]"

lemma ex_parts_run:
  "CalculateDistributionsPrecise dec_ops (Some 101) ex_parts 100 = Inr [(''a'', 10), (''b'', 51), (''c'', 40)]"
proof -
  note arith = dec_Cmp_def dec_val_def dec_Add_def dec_Sub_def dec_Mul_def dec_Shift_def dec_addc_def pow10_def
  have p: "parseMonetaryDecimal dec_ops ''50'' = Inr (50, 0)"
    by (simp add: parseMonetaryDecimal_def monetaryDecimalPattern_def split_decimal_def take_sign_def
        take_digits_def is_digit_def take_exponent_def dec_ops_sel dec_NewFromString_def
        digits_val_def digit_val_def)
  have s: "SetString ''10'' = Some 10"
    by (simp add: SetString_def is_digit_def digits_val_def digit_val_def)
  have kinds: "isLeftDistribution (ex_part i ''left'' [])" "\<not> isLeftDistribution (ex_part i ''50%'' [])"
    "\<not> isLeftDistribution (ex_part i [] ''10'')" "isPercentageDistribution (ex_part i ''50%'' [])"
    "\<not> isPercentageDistribution (ex_part i ''left'' [])" "\<not> isPercentageDistribution (ex_part i [] ''10'')"
    "di_Identifier (ex_part i d q) = i" "di_Distribution (ex_part i d q) = d" "di_PreciseDistribution (ex_part i d q) = q" for i d q
    by (simp_all add: ex_part_def isLeftDistribution_def isPercentageDistribution_def HasSuffix_def)
  have ids: "checkIdentifiers [] 0 ex_parts = Inr 1"
    by (simp add: ex_parts_def kinds)
  define st1 where "st1 = (initial_state dec_ops 101 100)\<lparr>ds_fixedAmounts := [(''a'', (10, 0))],
    ds_fixedTotalDec := (10, 0), ds_amountLeftDec := (91, 0)\<rparr>"
  have f: "processFixedDistributions dec_ops ex_parts (initial_state dec_ops 101 100) = Inr st1"
    by (simp add: ex_parts_def kinds s parseFixedAmount_def dec_ops_sel initial_state_def arith st1_def)
  define st2 where "st2 = st1\<lparr>ds_totalPercentage := (50, 0), ds_percentAmounts := [(''b'', (5050, -2))]\<rparr>"
  have q: "processPercentageDistributions dec_ops ex_parts st1 = Inr st2"
    by (simp add: ex_parts_def kinds p dec_ops_sel initial_state_def arith st1_def st2_def)
  have v: "validateDistributions dec_ops st2 = None"
    by (simp add: validateDistributions_def percentageTarget_def dec_ops_sel initial_state_def arith st1_def st2_def)
  have adj: "adjustPercentageAmounts dec_ops st2 = st2"
    by (simp add: adjustPercentageAmounts_def percentageTarget_def dec_ops_sel initial_state_def arith st1_def st2_def)
  define st4 where "st4 = st2\<lparr>ds_result := [(''a'', 10), (''b'', 50)], ds_amountLeftDec := (4050, -2)\<rparr>"
  have c: "combineDistributions dec_ops st2 = st4"
    by (simp add: combineDistributions_def dec_ops_sel initial_state_def arith rat_trunc_def st1_def st2_def st4_def)
  define st5 where "st5 = st4\<lparr>ds_result := [(''a'', 10), (''b'', 50), (''c'', 40)]\<rparr>"
  have l: "processLeftDistribution dec_ops ex_parts st4 = Inr st5"
    by (simp add: ex_parts_def kinds dec_ops_sel arith rat_trunc_def st4_def st5_def)
  have b: "ds_result (balanceDistributions dec_ops st5) = [(''a'', 10), (''b'', 51), (''c'', 40)]"
    by (simp add: balanceDistributions_def largest_result_step_def dec_ops_sel initial_state_def arith rat_trunc_def
        st1_def st2_def st4_def st5_def)
  have ne: "ex_parts \<noteq> []" by (simp add: ex_parts_def)
  show ?thesis
    by (simp add: CalculateDistributionsPrecise_def ids f q v adj c l b ne)
qed

theorem CalculateDistributionsPrecise_conserves_witness:
  "CalculateDistributionsPrecise dec_ops (Some 101) ex_parts 100 = Inr [(''a'', 10), (''b'', 51), (''c'', 40)] \<and>
   asum [(''a'', 10), (''b'', 51), (''c'', 40)] = 101"
  using CalculateDistributionsPrecise_conserves [OF decimal.decimal_lib_axioms ex_parts_run] ex_parts_run by simp

text \<open>
  C7: the assignment of the rounding remainder does not depend on the iteration order of the
  result map. Two runs of \<open>balanceDistributions\<close> that range over the same entries in
  different orders end with the same map.
\<close>

theorem balanceDistributions_order_independent:
  assumes lib: "decimal_lib D val" and "[] \<notin> fst ` set (ds_result st)" "distinct (map fst (ds_result st))"
    and perm: "mset (ds_result st) = mset rs"
  shows "map_of (ds_result (balanceDistributions D (st\<lparr>ds_result := rs\<rparr>))) =
         map_of (ds_result (balanceDistributions D st))"
proof -
  define s1 where "s1 = fold (\<lambda>(i, a) acc. dAdd D acc (dNewFromBigInt D a)) (ds_result st) (dNewFromBigInt D 0)"
  define s2 where "s2 = fold (\<lambda>(i, a) acc. dAdd D acc (dNewFromBigInt D a)) rs (dNewFromBigInt D 0)"
  have v: "val s1 = val s2" unfolding s1_def s2_def by (simp add: balance_sum [OF lib] asum_perm [OF perm])
  have d: "distinct (map fst rs)" using assms(3) perm by (metis mset_eq_imp_distinct_iff mset_map)
  have m: "map_of rs = map_of (ds_result st)" using assms(3) d perm by (metis map_of_eqI set_mset_mset map_of_inject_set set_map)
  have cmp: "dCmp D s2 (ds_totalAmountDec st) = dCmp D s1 (ds_totalAmountDec st)"
    and big: "dBigInt D (dSub D (ds_totalAmountDec st) s2) = dBigInt D (dSub D (ds_totalAmountDec st) s1)"
    by (simp_all add: decimal_lib.Cmp_val [OF lib] decimal_lib.BigInt_val [OF lib] decimal_lib.val_Sub [OF lib] v)
  show ?thesis
    by (auto simp: balanceDistributions_def s1_def [symmetric] s2_def [symmetric] cmp big m Let_def update_conv'
        largest_result_order [OF assms(2-4)] split: prod.splits option.splits)
qed

theorem balanceDistributions_order_independent_witness:
  "let st = (initial_state dec_ops 101 100)\<lparr>ds_result := [(''a'', 50), (''b'', 50)]\<rparr>
   in map_of (ds_result (balanceDistributions dec_ops (st\<lparr>ds_result := [(''b'', 50), (''a'', 50)]\<rparr>))) =
      map_of (ds_result (balanceDistributions dec_ops st))"
  using balanceDistributions_order_independent [OF decimal.decimal_lib_axioms,
      of "(initial_state dec_ops 101 100)\<lparr>ds_result := [(''a'', 50), (''b'', 50)]\<rparr>" "[(''b'', 50), (''a'', 50)]"]
  by (simp add: Let_def)

lemma attribute_parent_frame [simp]:
  "split_parties (attribute_parent i x t) = [] \<longleftrightarrow> split_parties t = []"
  "tx_TransactionID (attribute_parent i x t) = tx_TransactionID t"
  "tx_Reference (attribute_parent i x t) = tx_Reference t"
  "tx_Source (attribute_parent i x t) = tx_Source t"
  "tx_Destination (attribute_parent i x t) = tx_Destination t"
  "tx_Currency (attribute_parent i x t) = tx_Currency t"
  "(\<exists>y ys. tx_Sources (attribute_parent i x t) = Some (y # ys)) \<longleftrightarrow> (\<exists>y ys. tx_Sources t = Some (y # ys))"
  by (auto simp: attribute_parent_def split_parties_def attribute_leg_def split: option.splits list.splits)

lemma splitLeg_fields:
  "tx_PreciseAmount (splitLeg D uuid t d a k) = Some a"
  "tx_ParentTransaction (splitLeg D uuid t d a k) = tx_TransactionID t"
  "tx_TransactionID (splitLeg D uuid t d a k) = ''txn_'' @ uuid k"
  "tx_Reference (splitLeg D uuid t d a k) = tx_Reference t @ ''-'' @ show_int (int k)"
  "tx_Currency (splitLeg D uuid t d a k) = tx_Currency t"
  "split_parties t \<noteq> [] \<Longrightarrow> (tx_Source (splitLeg D uuid t d a k), tx_Destination (splitLeg D uuid t d a k)) =
     (if \<exists>y ys. tx_Sources t = Some (y # ys) then (di_Identifier d, tx_Destination t) else (tx_Source t, di_Identifier d))"
  by (auto simp: splitLeg_def Let_def GenerateUUIDWithSuffix_def split_parties_def split: option.splits list.splits)

lemma emitLegs_fields:
  assumes "emitLegs D uuid amounts ds k t = (t', legs)" "\<forall>d \<in> set ds. map_of amounts (di_Identifier d) \<noteq> None"
    "split_parties t \<noteq> []"
  shows "map tx_PreciseAmount legs = map (\<lambda>d. map_of amounts (di_Identifier d)) ds \<and>
    map tx_Reference legs = map (\<lambda>j. tx_Reference t @ ''-'' @ show_int (int j)) [k ..< k + length ds] \<and>
    map (\<lambda>l. (tx_Source l, tx_Destination l)) legs =
      map (\<lambda>d. if \<exists>y ys. tx_Sources t = Some (y # ys) then (di_Identifier d, tx_Destination t)
                else (tx_Source t, di_Identifier d)) ds \<and>
    (\<forall>l \<in> set legs. tx_ParentTransaction l = tx_TransactionID t \<and> tx_Currency l = tx_Currency t)"
  using assms
proof (induction ds arbitrary: k t t' legs)
  case (Cons d ds)
  obtain a where a: "map_of amounts (di_Identifier d) = Some a" using Cons.prems(2) by auto
  let ?leg = "splitLeg D uuid t d a k" and ?t = "attribute_parent (di_Identifier d) (tx_TransactionID (splitLeg D uuid t d a k)) t"
  obtain t1 legs1 where rec: "emitLegs D uuid amounts ds (Suc k) ?t = (t1, legs1)"
    by (cases "emitLegs D uuid amounts ds (Suc k) ?t")
  have legs: "legs = ?leg # legs1" using Cons.prems(1) a rec by (simp add: Let_def)
  have upt: "[k ..< Suc (k + length ds)] = k # [Suc k ..< Suc (k + length ds)]"
    by (rule upt_conv_Cons) simp
  show ?case
    using Cons.IH [OF rec] Cons.prems(2,3) a
    by (simp add: legs upt splitLeg_fields del: upt_Suc)
qed simp

lemma sum_over_parties:
  assumes "distinct (map fst r)" "distinct ids" "set ids = fst ` set r"
  shows "sum_list (map (\<lambda>i. big (map_of r i)) ids) = asum r"
proof -
  have "mset ids = mset (map fst r)"
    using assms set_eq_iff_mset_eq_distinct [of ids "map fst r"] by simp
  then have "sum_list (map (\<lambda>i. big (map_of r i)) ids) = sum_list (map (\<lambda>i. big (map_of r i)) (map fst r))"
    by (rule sum_list_map_perm)
  also have "map (\<lambda>i. big (map_of r i)) (map fst r) = map snd r"
    using assms(1) by (auto simp: big_def)
  finally show ?thesis by (simp add: asum_def)
qed

text \<open>
  C8: the legs of a split transaction carry its whole amount. \<open>SplitTransactionPrecise\<close>
  emits one leg per party, in the order the caller gave them and attributed to that party; the
  leg amounts sum to the amount of the transaction and none is negative; every leg points to
  the parent, keeps its currency, and no two legs share a reference.
\<close>

theorem SplitTransactionPrecise_legs:
  assumes lib: "decimal_lib D val" and amt: "tx_PreciseAmount t = Some amt"
    and run: "SplitTransactionPrecise D uuid t = Inr (t', legs)"
  shows "length legs = length (split_parties t) \<and>
    sum_list (map (\<lambda>l. big (tx_PreciseAmount l)) legs) = amt \<and>
    (\<forall>l \<in> set legs. 0 \<le> big (tx_PreciseAmount l) \<and> tx_ParentTransaction l = tx_TransactionID t \<and>
       tx_Currency l = tx_Currency t) \<and>
    map (\<lambda>l. if \<exists>y ys. tx_Sources t = Some (y # ys) then tx_Source l else tx_Destination l) legs =
      map di_Identifier (split_parties t) \<and>
    distinct (map tx_Reference legs)"
proof -
  obtain p r where r: "CalculateDistributionsPrecise D (Some amt) (split_parties t) p = Inr r"
    and e: "emitLegs D uuid r (split_parties t) 1 t = (t', legs)"
    using run amt by (auto simp: SplitTransactionPrecise_def guardE_Inr_iff bindE_Inr_iff split: if_splits float64.splits)
  from CalculateDistributionsPrecise_result [OF lib r]
  have c: "asum r = amt" "\<forall>y \<in> set r. 0 \<le> snd y" "distinct (map fst r)"
      "fst ` set r = di_Identifier ` set (split_parties t)"
    and ne: "split_parties t \<noteq> []" and ids: "distinct (map di_Identifier (split_parties t))" by auto
  have some: "\<forall>d \<in> set (split_parties t). map_of r (di_Identifier d) \<noteq> None"
    using c(4) by (simp add: map_of_eq_None_iff)
  note f = emitLegs_fields [OF e some ne, THEN conjunct1]
    emitLegs_fields [OF e some ne, THEN conjunct2, THEN conjunct1]
    emitLegs_fields [OF e some ne, THEN conjunct2, THEN conjunct2, THEN conjunct1]
    emitLegs_fields [OF e some ne, THEN conjunct2, THEN conjunct2, THEN conjunct2]
  have am: "map tx_PreciseAmount legs = map (\<lambda>i. map_of r i) (map di_Identifier (split_parties t))" using f(1) by (simp add: comp_def)
  then have len: "length legs = length (split_parties t)" by (metis length_map)
  have "map (\<lambda>l. big (tx_PreciseAmount l)) legs = map big (map tx_PreciseAmount legs)" by simp
  then have "map (\<lambda>l. big (tx_PreciseAmount l)) legs = map (\<lambda>i. big (map_of r i)) (map di_Identifier (split_parties t))"
    by (simp add: am comp_def)
  then have total: "sum_list (map (\<lambda>l. big (tx_PreciseAmount l)) legs) = amt"
    using sum_over_parties [OF c(3) ids] c(1,4) by simp
  have nonneg: "0 \<le> big (tx_PreciseAmount l)" if "l \<in> set legs" for l
  proof -
    have "tx_PreciseAmount l \<in> set (map (\<lambda>i. map_of r i) (map di_Identifier (split_parties t)))"
      unfolding am [symmetric] using that by simp
    then obtain i where "tx_PreciseAmount l = map_of r i" by auto
    then show ?thesis using c(2) by (cases "map_of r i") (auto dest!: map_of_SomeD bspec)
  qed
  from arg_cong [OF f(3), of "map fst"] arg_cong [OF f(3), of "map snd"]
  have party: "map (\<lambda>l. if \<exists>y ys. tx_Sources t = Some (y # ys) then tx_Source l else tx_Destination l) legs =
      map di_Identifier (split_parties t)"
    by (cases "\<exists>y ys. tx_Sources t = Some (y # ys)") (auto simp: comp_def)
  have "distinct (map tx_Reference legs)"
    unfolding f(2) by (simp add: distinct_map inj_on_def)
  then show ?thesis using len total nonneg party f(4) by simp
qed

theorem SplitTransactionPrecise_legs_witness:
  "\<exists>t' legs. SplitTransactionPrecise dec_ops show_nat
      (ex_txn\<lparr>tx_PreciseAmount := Some 101, tx_Destinations := Some ex_parts\<rparr>) = Inr (t', legs) \<and>
    length legs = 3 \<and> sum_list (map (\<lambda>l. big (tx_PreciseAmount l)) legs) = 101"
proof -
  let ?t = "ex_txn\<lparr>tx_PreciseAmount := Some 101, tx_Destinations := Some ex_parts\<rparr>"
  have parties: "split_parties ?t = ex_parts"
    by (simp add: split_parties_def ex_parts_def ex_txn_def zero_Transaction_def)
  have prec: "tx_Precision ex_txn = Fin 100" by (simp add: ex_txn_def)
  have "SplitTransactionPrecise dec_ops show_nat ?t = Inr (emitLegs dec_ops show_nat [(''a'', 10), (''b'', 51), (''c'', 40)] ex_parts 1 ?t)"
    by (simp add: SplitTransactionPrecise_def parties ex_parts_run prec ValidatePrecision_def
        IsNaN_def IsInf_def f64_zero_def rat_trunc_def f64_leq_def)
  then obtain t' legs where run: "SplitTransactionPrecise dec_ops show_nat ?t = Inr (t', legs)"
    by (metis surj_pair)
  have amt: "tx_PreciseAmount ?t = Some 101" by simp
  show ?thesis
    using SplitTransactionPrecise_legs [OF decimal.decimal_lib_axioms amt run] run
    by (auto simp: parties) (simp add: ex_parts_def)
qed

end
