(* ===== verification/Chain.thy ===== *)
theory Chain
  imports Sha256
begin

section \<open>The canonical encodings of the hash chain (model/chain.go)\<close>

text \<open>
  The rows a chain seals, the three canonical encodings with their domain separation, and the
  hash of one link. The locale \<open>hash_chain\<close> is the contract between the encodings and the
  walk along a chain: it is interpreted on the hash and the encodings of the code.
\<close>

subsection \<open>Definitions\<close>

definition ChainGenesisHash :: string where
  "ChainGenesisHash = replicate 64 CHR ''0''"

record ChainRow =
  cr_HistoricalRate :: string
  cr_OverdraftLimit :: string
  cr_QueueAction :: string
  cr_ExecutionControls :: string
  cr_ScheduledFor :: "time option"
  cr_ID :: string
  cr_Precision :: string
  cr_Rate :: string
  cr_ParentTransaction :: string
  cr_EffectiveDate :: "time option"
  cr_TransactionID :: string
  cr_Source :: string
  cr_Destination :: string
  cr_Amount :: string
  cr_PreciseAmount :: string
  cr_Currency :: string
  cr_Status :: string
  cr_Reference :: string
  cr_CreatedAt :: time

record ChainState =
  cs_ChainKey :: string
  cs_LastSeq :: int
  cs_HeadHash :: string
  cs_GenesisHash :: string
  cs_GenesisAt :: time
  cs_UpdatedAt :: time

record ChainedTransaction =
  ct_CanonicalVersion :: int
  ct_Row :: ChainRow
  ct_ChainSeq :: int
  ct_ChainPrevHash :: string
  ct_ChainHash :: string

record ChainCheckpoint =
  cp_Sequence :: int
  cp_Count :: int
  cp_HeadHash :: string
  cp_CreatedAt :: time

record ChainIssue =
  ci_Sequence :: int
  ci_TransactionID :: string
  ci_Reason :: string

record ChainVerifyResult =
  vr_Verified :: bool
  vr_LastSeq :: int
  vr_HeadHash :: string
  vr_BrokenSeq :: int
  vr_BrokenTxnID :: string
  vr_Reason :: string
  vr_Pending :: int
  vr_Tampering :: "ChainIssue list"

definition chain_v1_text :: "string \<Rightarrow> ChainRow \<Rightarrow> string" where
  "chain_v1_text prevHash r = Join
     [prevHash, cr_TransactionID r, cr_Source r, cr_Destination r, cr_Amount r, cr_PreciseAmount r,
      cr_Currency r, cr_Status r, cr_Reference r, Format_RFC3339Nano (cr_CreatedAt r)] ''|''"

definition ComputeChainHash :: "string \<Rightarrow> ChainRow \<Rightarrow> string" where
  "ComputeChainHash prevHash r = EncodeToString (Sum256 (bytes_of (chain_v1_text prevHash r)))"

text \<open>A field is its length as a big-endian \<open>uint64\<close>, then its bytes.\<close>

definition write_fields :: "byte list list \<Rightarrow> byte list" where
  "write_fields fs = concat (map (\<lambda>f. be_bytes 8 (length f) @ f) fs)"

definition time_text :: "time option \<Rightarrow> string" where
  "time_text t = (case t of None \<Rightarrow> [] | Some x \<Rightarrow> Format_RFC3339Nano x)"

definition CanonicalChainV2 :: "string \<Rightarrow> ChainRow \<Rightarrow> byte list" where
  "CanonicalChainV2 prevHash r = write_fields (map bytes_of
     [''ledgerforge.transaction-chain'', ''2'', prevHash,
      cr_ID r, cr_TransactionID r, cr_Source r, cr_Destination r, cr_Amount r, cr_PreciseAmount r,
      cr_Precision r, cr_Rate r, cr_Currency r, cr_Status r, cr_Reference r, cr_ParentTransaction r,
      time_text (cr_EffectiveDate r), Format_RFC3339Nano (cr_CreatedAt r)])"

definition CanonicalChainV3 :: "string \<Rightarrow> ChainRow \<Rightarrow> byte list" where
  "CanonicalChainV3 prevHash r = write_fields
     [bytes_of ''ledgerforge.transaction-chain'', bytes_of ''3'', CanonicalChainV2 prevHash r,
      bytes_of (cr_OverdraftLimit r), bytes_of (cr_QueueAction r), bytes_of (cr_ExecutionControls r),
      bytes_of (time_text (cr_ScheduledFor r)), bytes_of (cr_HistoricalRate r)]"

definition ComputeChainHashVersion :: "int \<Rightarrow> string \<Rightarrow> ChainRow \<Rightarrow> go_error + string" where
  "ComputeChainHashVersion version prevHash r =
     (if version = 1 then Inr (ComputeChainHash prevHash r)
      else if version = 2 then Inr (EncodeToString (Sum256 (CanonicalChainV2 prevHash r)))
      else if version = 3 then Inr (EncodeToString (Sum256 (CanonicalChainV3 prevHash r)))
      else Inl (ErrorString (''unsupported chain canonical version '' @ show_int version)))"

text \<open>The bytes that are hashed for a version, if the version is supported.\<close>

definition canonical_bytes :: "int \<Rightarrow> string \<Rightarrow> ChainRow \<Rightarrow> byte list option" where
  "canonical_bytes version prevHash r =
     (if version = 1 then Some (bytes_of (chain_v1_text prevHash r))
      else if version = 2 then Some (CanonicalChainV2 prevHash r)
      else if version = 3 then Some (CanonicalChainV3 prevHash r)
      else None)"

text \<open>The texts of a row that version 3 commits to.\<close>

definition chain_fields :: "ChainRow \<Rightarrow> string list" where
  "chain_fields r =
     [cr_ID r, cr_TransactionID r, cr_Source r, cr_Destination r, cr_Amount r, cr_PreciseAmount r,
      cr_Precision r, cr_Rate r, cr_Currency r, cr_Status r, cr_Reference r, cr_ParentTransaction r,
      time_text (cr_EffectiveDate r), Format_RFC3339Nano (cr_CreatedAt r), cr_OverdraftLimit r,
      cr_QueueAction r, cr_ExecutionControls r, time_text (cr_ScheduledFor r), cr_HistoricalRate r]"

text \<open>Every text is shorter than \<open>2^56\<close> bytes, so the \<open>uint64\<close> lengths are exact.\<close>

definition row_fits :: "ChainRow \<Rightarrow> bool" where
  "row_fits r \<longleftrightarrow> (\<forall>f \<in> set (chain_fields r). length f < 2 ^ 56)"

definition head_ok :: "string \<Rightarrow> bool" where
  "head_ok p \<longleftrightarrow> p \<noteq> [] \<and> hd p \<noteq> CHR 0x00 \<and> length p < 2 ^ 56"

subsection \<open>A walk along a chain\<close>

fun linked :: "('m \<Rightarrow> 'h) \<Rightarrow> ('h \<Rightarrow> 'r \<Rightarrow> 'm option) \<Rightarrow> 'h \<Rightarrow> 'r list \<Rightarrow> 'h \<Rightarrow> bool" where
  "linked hash encode p [] h = (p = h)"
| "linked hash encode p (r # rs) h =
     (case encode p r of None \<Rightarrow> False | Some m \<Rightarrow> linked hash encode (hash m) rs h)"

lemma linked_snoc:
  "linked hash encode p (rs @ [r]) h \<longleftrightarrow>
     (\<exists>q m. linked hash encode p rs q \<and> encode q r = Some m \<and> h = hash m)"
  by (induction rs arbitrary: p) (auto split: option.splits)

lemma linked_append:
  "linked hash encode p (rs @ ss) h \<longleftrightarrow> (\<exists>q. linked hash encode p rs q \<and> linked hash encode q ss h)"
  by (induction rs arbitrary: p) (auto split: option.splits)

lemma linked_fun: "linked hash encode p rs h \<Longrightarrow> linked hash encode p rs h' \<Longrightarrow> h = h'"
  by (induction rs arbitrary: p) (auto split: option.splits)

text \<open>The heads each row of a chain is linked onto, and a collision at some position of two chains.\<close>

fun heads :: "('m \<Rightarrow> 'h) \<Rightarrow> ('h \<Rightarrow> 'r \<Rightarrow> 'm option) \<Rightarrow> 'h \<Rightarrow> 'r list \<Rightarrow> 'h list" where
  "heads hash encode p [] = []"
| "heads hash encode p (r # rs) =
     p # (case encode p r of None \<Rightarrow> [] | Some m \<Rightarrow> heads hash encode (hash m) rs)"

definition collision :: "('m \<Rightarrow> 'h) \<Rightarrow> ('h \<Rightarrow> 'r \<Rightarrow> 'm option) \<Rightarrow> 'h \<Rightarrow> 'r list \<Rightarrow> 'h \<Rightarrow> 'r list \<Rightarrow> bool" where
  "collision hash encode g rs g' rs' \<longleftrightarrow>
     list_ex (\<lambda>((p, r), (p', r')). encode p r \<noteq> encode p' r' \<and> map_option hash (encode p r) = map_option hash (encode p' r'))
       (zip (zip (heads hash encode g rs) rs) (zip (heads hash encode g' rs') rs'))"

lemma heads_snoc:
  "linked hash encode p rs q \<Longrightarrow> heads hash encode p (rs @ [r]) = heads hash encode p rs @ [q]"
  by (induction rs arbitrary: p) (auto split: option.splits)

lemma length_heads: "linked hash encode p rs q \<Longrightarrow> length (heads hash encode p rs) = length rs"
  by (induction rs arbitrary: p) (auto split: option.splits)

lemma collision_snoc:
  assumes "linked hash encode g rs q" "linked hash encode g' rs' q'" "length rs = length rs'"
  shows "collision hash encode g (rs @ [r]) g' (rs' @ [r']) \<longleftrightarrow> collision hash encode g rs g' rs' \<or>
    (encode q r \<noteq> encode q' r' \<and> map_option hash (encode q r) = map_option hash (encode q' r'))"
  using assms by (simp add: collision_def heads_snoc length_heads)

text \<open>
  What the walk needs of an encoding: the bytes of a \<open>good\<close> row bind the previous head and
  the committed view of the row, against any other row that could have been put in its place,
  and every hash is a head.
\<close>

locale hash_chain =
  fixes hash :: "'m \<Rightarrow> 'h"
    and encode :: "'h \<Rightarrow> 'r \<Rightarrow> 'm option"
    and view :: "'r \<Rightarrow> 'v"
    and good :: "'r \<Rightarrow> bool"
    and fits :: "'r \<Rightarrow> bool"
    and is_head :: "'h \<Rightarrow> bool"
  assumes binding: "encode p r = Some m \<Longrightarrow> encode p' r' = Some m \<Longrightarrow> good r \<Longrightarrow> fits r \<Longrightarrow> fits r' \<Longrightarrow>
      is_head p \<Longrightarrow> is_head p' \<Longrightarrow> p = p' \<and> view r = view r'"
    and head_hash: "is_head (hash m)"
begin

lemma linked_head: "linked hash encode p rs h \<Longrightarrow> is_head p \<Longrightarrow> is_head h"
  by (induction rs arbitrary: p) (auto split: option.splits intro: head_hash)

theorem linked_binding:
  assumes "linked hash encode g rs h" "linked hash encode g' rs' h" "length rs = length rs'"
    and "\<forall>r \<in> set rs. good r \<and> fits r" "\<forall>r \<in> set rs'. fits r" "is_head g" "is_head g'"
  shows "map view rs = map view rs' \<or> collision hash encode g rs g' rs'"
  using assms(1-5)
proof (induction rs arbitrary: rs' h rule: rev_induct)
  case (snoc r rs)
  from snoc.prems(3) obtain r' ss where rs': "rs' = ss @ [r']" "length rs = length ss"
    by (cases rs' rule: rev_cases) auto
  from snoc.prems(1) obtain q m where q: "linked hash encode g rs q" "encode q r = Some m" "h = hash m"
    by (auto simp: linked_snoc)
  from snoc.prems(2) obtain q' m' where q': "linked hash encode g' ss q'" "encode q' r' = Some m'" "h = hash m'"
    by (auto simp: rs' linked_snoc)
  show ?case
  proof (cases "m = m'")
    case True
    have "is_head q" "is_head q'" using linked_head q(1) q'(1) assms(6,7) by auto
    with binding [of q r m q' r'] q(2) q'(2) True snoc.prems(4,5) rs'
    have "q = q'" "view r = view r'" by auto
    with snoc.IH [of q ss] q(1) q'(1) rs' snoc.prems(4,5) collision_snoc [OF q(1) q'(1) rs'(2)]
    show ?thesis by auto
  next
    case False
    with q(2,3) q'(2,3) show ?thesis by (simp add: rs' collision_snoc [OF q(1) q'(1) rs'(2)])
  qed
qed simp

end

subsection \<open>Lemmas\<close>

lemma length_be_bytes [simp]: "length (be_bytes k n) = k"
  by (induction k arbitrary: n) (simp_all add: be_bytes.simps)

lemma be_bytes_Nil_iff [simp]: "be_bytes k n = [] \<longleftrightarrow> k = 0"
  using length_be_bytes [of k n] by (cases k) auto

lemma be_bytes_inject:
  assumes "n < 256 ^ k" "m < 256 ^ k" "be_bytes k n = be_bytes k m"
  shows "n = m"
  using assms
proof (induction k arbitrary: n m)
  case (Suc k)
  from Suc.prems(3) have hi: "be_bytes k (n div 256) = be_bytes k (m div 256)"
    and lo: "(of_nat (n mod 256) :: byte) = of_nat (m mod 256)" by (simp_all add: be_bytes.simps)
  have "n div 256 < 256 ^ k" "m div 256 < 256 ^ k"
    using Suc.prems(1,2) by (simp_all add: less_mult_imp_div_less mult.commute)
  from Suc.IH [OF this hi] have "n div 256 = m div 256" .
  moreover have "n mod 256 = m mod 256"
    using arg_cong [OF lo, of unat] by (simp add: unat_of_nat)
  ultimately show ?case by (metis div_mult_mod_eq)
qed (simp add: be_bytes.simps)

lemma bytes_of_inject [simp]: "bytes_of s = bytes_of t \<longleftrightarrow> s = t"
proof -
  have "inj (\<lambda>c. of_nat (of_char c) :: byte)"
  proof (rule injI)
    fix c d :: char
    assume "(of_nat (of_char c) :: byte) = of_nat (of_char d)"
    then have "of_char c mod 256 = (of_char d mod 256 :: nat)" by (simp add: word_of_nat_eq_iff take_bit_eq_mod)
    then show "c = d" by simp
  qed
  then show ?thesis by (simp add: bytes_of_def inj_map_eq_map)
qed

lemma length_bytes_of [simp]: "length (bytes_of s) = length s"
  by (simp add: bytes_of_def)

lemma write_fields_simps [simp]:
  "write_fields [] = []"
  "write_fields (f # fs) = be_bytes 8 (length f) @ f @ write_fields fs"
  by (simp_all add: write_fields_def)

declare be_bytes.simps [simp del]

lemma write_fields_inject:
  assumes "\<forall>f \<in> set fs. length f < 2 ^ 64" "\<forall>f \<in> set gs. length f < 2 ^ 64" "write_fields fs = write_fields gs"
  shows "fs = gs"
  using assms
proof (induction fs arbitrary: gs)
  case Nil
  then show ?case by (cases gs) auto
next
  case (Cons f fs)
  then obtain g gs' where gs: "gs = g # gs'" by (cases gs) auto
  have eq: "be_bytes 8 (length f) @ f @ write_fields fs = be_bytes 8 (length g) @ g @ write_fields gs'"
    using Cons.prems(3) by (simp add: gs)
  then have "be_bytes 8 (length f) = be_bytes 8 (length g)" by (subst (asm) append_eq_append_conv) auto
  then have "length f = length g"
    using be_bytes_inject [of "length f" 8 "length g"] Cons.prems(1,2) gs by simp
  with eq have "f = g" "write_fields fs = write_fields gs'" by simp_all
  with Cons.IH [of gs'] Cons.prems(1,2) gs show ?case by simp
qed

lemma length_write_fields: "length (write_fields fs) = (\<Sum>f \<leftarrow> fs. 8 + length f)"
  by (induction fs) simp_all

lemma length_CanonicalChainV2:
  assumes "row_fits r" "head_ok p"
  shows "length (CanonicalChainV2 p r) < 2 ^ 64"
  using assms by (simp add: CanonicalChainV2_def length_write_fields row_fits_def chain_fields_def head_ok_def)

lemma CanonicalChainV2_inject:
  assumes "CanonicalChainV2 p r = CanonicalChainV2 p' r'" "row_fits r" "row_fits r'" "head_ok p" "head_ok p'"
  shows "p = p' \<and> take 14 (chain_fields r) = take 14 (chain_fields r')"
proof -
  have "length f < 2 ^ 64" if "length f < 2 ^ 56" for f :: "'a list" using that by simp
  then have "map bytes_of ([''ledgerforge.transaction-chain'', ''2'', p] @ take 14 (chain_fields r)) =
      map bytes_of ([''ledgerforge.transaction-chain'', ''2'', p'] @ take 14 (chain_fields r'))"
    using assms
    by (intro write_fields_inject)
       (auto simp: CanonicalChainV2_def row_fits_def chain_fields_def head_ok_def)
  then have "[p] @ take 14 (chain_fields r) = [p'] @ take 14 (chain_fields r')"
    by (simp add: inj_map_eq_map [of bytes_of] inj_def del: map_append)
  then show ?thesis by simp
qed

lemma CanonicalChainV3_inject:
  assumes "CanonicalChainV3 p r = CanonicalChainV3 p' r'" "row_fits r" "row_fits r'" "head_ok p" "head_ok p'"
  shows "p = p' \<and> chain_fields r = chain_fields r'"
proof -
  have "length f < 2 ^ 64" if "length f < 2 ^ 56" for f :: "'a list" using that by simp
  then have "[bytes_of ''ledgerforge.transaction-chain'', bytes_of ''3'', CanonicalChainV2 p r] @
        map bytes_of (drop 14 (chain_fields r)) =
      [bytes_of ''ledgerforge.transaction-chain'', bytes_of ''3'', CanonicalChainV2 p' r'] @
        map bytes_of (drop 14 (chain_fields r'))"
    using assms length_CanonicalChainV2 [OF assms(2,4)] length_CanonicalChainV2 [OF assms(3,5)]
    by (intro write_fields_inject) (auto simp: CanonicalChainV3_def row_fits_def chain_fields_def)
  then have "CanonicalChainV2 p r = CanonicalChainV2 p' r'" and "drop 14 (chain_fields r) = drop 14 (chain_fields r')"
    by (simp_all add: inj_map_eq_map [of bytes_of] inj_def del: map_append)
  with CanonicalChainV2_inject [OF _ assms(2-5)] show ?thesis by (metis append_take_drop_id)
qed

lemma be_bytes_hd: "n < 256 ^ k \<Longrightarrow> hd (be_bytes (Suc k) n) = 0"
proof (induction k arbitrary: n)
  case (Suc k)
  then have "n div 256 < 256 ^ k" by (simp add: less_mult_imp_div_less mult.commute)
  with Suc.IH [of "n div 256"] show ?case by (simp add: be_bytes.simps [of "Suc k"] be_bytes.simps(2) [of "Suc k"])
qed (simp add: be_bytes.simps)

lemma write_fields_hd: "length f < 2 ^ 56 \<Longrightarrow> hd (write_fields (f # fs)) = 0"
  using be_bytes_hd [of "length f" 7] by (simp add: hd_append)

text \<open>The three versions never share their bytes.\<close>

lemma canonical_bytes_v3_version:
  assumes "canonical_bytes 3 p r = Some m" "canonical_bytes v p' r' = Some m"
    and "row_fits r" "row_fits r'" "head_ok p" "head_ok p'"
  shows "v = 3"
proof (rule ccontr)
  assume "v \<noteq> 3"
  with assms(2) consider "v = 1" "m = bytes_of (chain_v1_text p' r')" | "v = 2" "m = CanonicalChainV2 p' r'"
    by (auto simp: canonical_bytes_def split: if_splits)
  then show False
  proof cases
    case 1
    have "hd m = 0" using assms(1) by (auto simp: canonical_bytes_def CanonicalChainV3_def write_fields_hd simp del: write_fields_simps)
    moreover obtain c cs where "p' = c # cs" "c \<noteq> CHR 0x00" using assms(6) by (cases p') (auto simp: head_ok_def)
    then have "hd m = of_nat (of_char c)" using 1 by (simp add: chain_v1_text_def bytes_of_def)
    ultimately have "(of_nat (of_char c) :: byte) = of_nat (of_char (CHR 0x00))" by simp
    then have "bytes_of [c] = bytes_of [CHR 0x00]" by (simp only: bytes_of_def list.map)
    with \<open>c \<noteq> CHR 0x00\<close> show False by simp
  next
    case 2
    have small: "length f < 2 ^ 64" if "length f < 2 ^ 56" for f :: "'a list" using that by simp
    let ?fs = "[bytes_of ''ledgerforge.transaction-chain'', bytes_of ''3'', CanonicalChainV2 p r] @ map bytes_of (drop 14 (chain_fields r))"
    let ?gs = "map bytes_of ([''ledgerforge.transaction-chain'', ''2'', p'] @ take 14 (chain_fields r'))"
    have "write_fields ?fs = write_fields ?gs"
      using assms(1) 2 by (simp add: canonical_bytes_def CanonicalChainV3_def CanonicalChainV2_def chain_fields_def del: write_fields_simps)
    then have "?fs = ?gs"
      using assms(3-6) length_CanonicalChainV2 [OF assms(3,5)] small
      by (intro write_fields_inject) (auto simp: row_fits_def chain_fields_def head_ok_def)
    then show False by simp
  qed
qed

lemma length_sha_round: "length s = 8 \<Longrightarrow> length (sha_round s kw) = 8"
  by (cases "(s, kw)" rule: sha_round.cases) (auto simp: Let_def)

lemma length_compress: "length h = 8 \<Longrightarrow> length (compress h block) = 8"
proof -
  have "length s = 8 \<Longrightarrow> length (foldl sha_round s kws) = 8" for s kws
    by (induction kws arbitrary: s) (auto simp: length_sha_round)
  then show "length h = 8 \<Longrightarrow> ?thesis" by (simp add: compress_def)
qed

lemma length_Sum256: "length (Sum256 m) = 32"
proof -
  have "length h = 8 \<Longrightarrow> length (foldl compress h bs) = 8" for h bs
    by (induction bs arbitrary: h) (auto simp: length_compress)
  then have eight: "length (foldl compress sha_H0 (blocks (be_words (sha_pad m)))) = 8"
    using length_sha_H0 by blast
  have "length (concat (map (\<lambda>w. be_bytes 4 (unat w)) ws)) = 4 * length ws" for ws :: "32 word list"
    by (induction ws) simp_all
  then show ?thesis using eight by (simp add: Sum256_def)
qed

lemma unat_byte_less: "unat (b :: byte) < 256"
  using unsigned_less [of b] by simp

lemma hex_char_inject: "a < 16 \<Longrightarrow> b < 16 \<Longrightarrow> hex_char a = hex_char b \<Longrightarrow> a = b"
  by (auto simp: hex_char_def split: if_splits dest!: arg_cong [of _ _ "of_char :: char \<Rightarrow> nat"])

lemma EncodeToString_simps [simp]:
  "EncodeToString [] = []"
  "EncodeToString (b # bs) = hex_char (unat b div 16) # hex_char (unat b mod 16) # EncodeToString bs"
  by (simp_all add: EncodeToString_def)

lemma EncodeToString_inject: "EncodeToString bs = EncodeToString cs \<Longrightarrow> bs = cs"
proof (induction bs arbitrary: cs)
  case (Cons b bs)
  then obtain c cs' where cs: "cs = c # cs'" by (cases cs) auto
  have "unat b < 256" "unat c < 256" by (rule unat_byte_less)+
  with Cons.prems have "unat b div 16 = unat c div 16" "unat b mod 16 = unat c mod 16"
    by (auto simp: cs intro!: hex_char_inject)
  then have "unat b = unat c" by (metis div_mult_mod_eq)
  then have "b = c" by (simp add: word_unat_eq_iff)
  with Cons show ?case by (simp add: cs)
qed (metis EncodeToString_simps list.exhaust list.distinct(1))

lemma length_EncodeToString [simp]: "length (EncodeToString bs) = 2 * length bs"
  by (induction bs) auto

definition chain_digest :: "byte list \<Rightarrow> string" where
  "chain_digest m = EncodeToString (Sum256 m)"

lemma chain_digest_eq_iff: "chain_digest m = chain_digest m' \<longleftrightarrow> Sum256 m = Sum256 m'"
  by (auto simp: chain_digest_def dest: EncodeToString_inject)

lemma hex_char_not_nul: "n < 16 \<Longrightarrow> hex_char n \<noteq> CHR 0x00"
  by (auto simp: hex_char_def dest!: arg_cong [of _ _ "of_char :: char \<Rightarrow> nat"])

lemma head_ok_digest: "head_ok (chain_digest m)"
proof -
  obtain b bs where bs: "Sum256 m = b # bs" using length_Sum256 [of m] by (cases "Sum256 m") auto
  have "unat b div 16 < 16" using unat_byte_less [of b] by simp
  then show ?thesis
    using length_Sum256 [of m] hex_char_not_nul [of "unat b div 16"]
    by (simp add: head_ok_def chain_digest_def bs)
qed

lemma head_ok_genesis: "head_ok ChainGenesisHash"
  by (simp add: head_ok_def ChainGenesisHash_def)

lemma ComputeChainHashVersion_bytes:
  "ComputeChainHashVersion v p r = Inr h \<longleftrightarrow> (\<exists>m. canonical_bytes v p r = Some m \<and> h = chain_digest m)"
  by (auto simp: ComputeChainHashVersion_def canonical_bytes_def chain_digest_def ComputeChainHash_def)

text \<open>A row together with the version it was sealed under.\<close>

definition encode_row :: "string \<Rightarrow> int \<times> ChainRow \<Rightarrow> byte list option" where
  "encode_row p vr = canonical_bytes (fst vr) p (snd vr)"

interpretation seal: hash_chain chain_digest encode_row "\<lambda>vr. (fst vr, chain_fields (snd vr))" "\<lambda>vr. fst vr = 3"
  "\<lambda>vr. row_fits (snd vr)" head_ok
proof unfold_locales
  fix p p' :: string and r r' :: "int \<times> ChainRow" and m
  assume enc: "encode_row p r = Some m" "encode_row p' r' = Some m" and v: "fst r = 3"
    and fits: "row_fits (snd r)" "row_fits (snd r')" "head_ok p" "head_ok p'"
  have "fst r' = 3"
    using canonical_bytes_v3_version [of p "snd r" m "fst r'" p' "snd r'"] enc v fits by (simp add: encode_row_def)
  with enc v CanonicalChainV3_inject [of p "snd r" p' "snd r'"] fits
  show "p = p' \<and> (fst r, chain_fields (snd r)) = (fst r', chain_fields (snd r'))"
    by (simp add: encode_row_def canonical_bytes_def)
qed (rule head_ok_digest)

end
