(* ===== verification/Chain_Store.thy ===== *)
theory Chain_Store
  imports Chain Model_Types
begin

section \<open>Sealing and verifying the chain (database/chain.go)\<close>

text \<open>
  The columns of \<open>ledgerforge.transactions\<close> that the chain reads and writes, the
  \<open>chain_state\<close> row, the checkpoints and the INSERT journal. \<open>sr_row\<close> holds the canonical
  fields as the shared select list \<open>chainRowColumns\<close> reads them, \<open>sr_json\<close> the row as
  \<open>to_jsonb\<close> renders it. A statement that the database refuses aborts the transaction, so
  the error leaves the store as it was. Failures of the connection itself are not modelled.
\<close>

subsection \<open>State\<close>

record stored_row =
  sr_id :: int
  sr_row :: ChainRow
  sr_seq :: "int option"
  sr_prev :: "string option"
  sr_hash :: "string option"
  sr_version :: "int option"
  sr_json :: "(string \<times> json) list"

record journal_row =
  jr_id :: int
  jr_transaction_id :: string
  jr_action :: string
  jr_succeeded :: bool
  jr_new_data :: "(string \<times> json) list"

record schema_transition =
  tr_column_name :: string
  tr_last_legacy_journal_id :: int
  tr_restored_default :: json

record chain_db =
  cdb_rows :: "stored_row list"
  cdb_state :: ChainState
  cdb_checkpoints :: "ChainCheckpoint list"
  cdb_journal :: "journal_row list"
  cdb_transitions :: "schema_transition list"

subsection \<open>ChainPendingTransactions\<close>

definition unchained_before :: "time \<Rightarrow> stored_row \<Rightarrow> bool" where
  "unchained_before cutoff r \<longleftrightarrow> sr_seq r = None \<and> cr_CreatedAt (sr_row r) < cutoff"

definition pending_batch :: "time \<Rightarrow> int \<Rightarrow> chain_db \<Rightarrow> stored_row list" where
  "pending_batch cutoff batchSize db =
     take (nat batchSize) (sort_key sr_id (filter (unchained_before cutoff) (cdb_rows db)))"

record chain_link =
  li_id :: int
  li_seq :: int
  li_prevHash :: string
  li_hash :: string

text \<open>The scan loop: each row is hashed onto the running head and given the next sequence.\<close>

fun link_batch :: "int \<Rightarrow> string \<Rightarrow> stored_row list \<Rightarrow> go_error + chain_link list" where
  "link_batch lastSeq head [] = Inr []"
| "link_batch lastSeq head (r # rs) =
     bindE (ComputeChainHashVersion 3 head (sr_row r)) (\<lambda>h.
     bindE (link_batch (lastSeq + 1) h rs) (\<lambda>links.
       Inr (\<lparr>li_id = sr_id r, li_seq = lastSeq + 1, li_prevHash = head, li_hash = h\<rparr> # links)))"

text \<open>The prepared UPDATE of one link, with the partial unique index on \<open>chain_seq\<close>.\<close>

definition seal_row :: "chain_link \<Rightarrow> stored_row \<Rightarrow> stored_row" where
  "seal_row l r =
     (if sr_id r = li_id l \<and> sr_seq r = None
      then r\<lparr>sr_seq := Some (li_seq l), sr_prev := Some (li_prevHash l), sr_hash := Some (li_hash l), sr_version := Some 3\<rparr>
      else r)"

definition write_link :: "chain_link \<Rightarrow> chain_db \<Rightarrow> go_error + chain_db" where
  "write_link l db =
     (if list_ex (\<lambda>r. sr_seq r = Some (li_seq l)) (cdb_rows db) \<and>
         list_ex (\<lambda>r. sr_id r = li_id l \<and> sr_seq r = None) (cdb_rows db)
      then Inl (APIErr ''INTERNAL_SERVER_ERROR'' ''Failed to write chain link'' None)
      else Inr (db\<lparr>cdb_rows := map (seal_row l) (cdb_rows db)\<rparr>))"

definition write_checkpoint :: "time \<Rightarrow> chain_link \<Rightarrow> chain_db \<Rightarrow> go_error + chain_db" where
  "write_checkpoint now l db =
     (if list_ex (\<lambda>c. cp_Sequence c = li_seq l) (cdb_checkpoints db) \<or> li_seq l \<le> 0
      then Inl (errorf_w ''write chain checkpoint'' (PqError ''23505'' ''chain_checkpoints_pkey'' ''duplicate key''))
      else Inr (db\<lparr>cdb_checkpoints := insort_key cp_Sequence
             \<lparr>cp_Sequence = li_seq l, cp_Count = li_seq l, cp_HeadHash = li_hash l, cp_CreatedAt = now\<rparr> (cdb_checkpoints db)\<rparr>))"

fun write_batch :: "time \<Rightarrow> int \<Rightarrow> chain_link list \<Rightarrow> chain_db \<Rightarrow> go_error + chain_db" where
  "write_batch now lastSeq [] db = Inr db"
| "write_batch now lastSeq (l # ls) db =
     bindE (write_link l db) (\<lambda>db1.
     bindE (if li_seq l mod 1000 = 0 \<or> li_seq l = lastSeq then write_checkpoint now l db1 else Inr db1) (\<lambda>db2.
       write_batch now lastSeq ls db2))"

definition ChainPendingTransactions :: "time \<Rightarrow> time \<Rightarrow> int \<Rightarrow> chain_db \<Rightarrow> go_error + (chain_db \<times> int)" where
  "ChainPendingTransactions now cutoff batchSize db =
     (if batchSize \<le> 0 then Inl (ErrorString ''chain batch size must be positive'')
      else (let st = cdb_state db; rows = pending_batch cutoff batchSize db
            in bindE (link_batch (cs_LastSeq st) (cs_HeadHash st) rows) (\<lambda>batch.
               if batch = [] then Inr (db, 0)
               else (let lastSeq = cs_LastSeq st + int (length batch); head = li_hash (last batch)
                     in bindE (write_batch now lastSeq batch db) (\<lambda>db1.
                        Inr (db1\<lparr>cdb_state := st\<lparr>cs_LastSeq := lastSeq, cs_HeadHash := head, cs_UpdatedAt := now\<rparr>\<rparr>,
                             int (length batch)))))))"

subsection \<open>Reads\<close>

definition GetChainState :: "chain_db \<Rightarrow> ChainState" where
  "GetChainState db = cdb_state db"

definition read_chained :: "stored_row \<Rightarrow> ChainedTransaction" where
  "read_chained r = \<lparr>
     ct_CanonicalVersion = (case sr_version r of None \<Rightarrow> 1 | Some v \<Rightarrow> v), ct_Row = sr_row r,
     ct_ChainSeq = (case sr_seq r of None \<Rightarrow> 0 | Some s \<Rightarrow> s),
     ct_ChainPrevHash = (case sr_prev r of None \<Rightarrow> [] | Some h \<Rightarrow> h),
     ct_ChainHash = (case sr_hash r of None \<Rightarrow> [] | Some h \<Rightarrow> h)\<rparr>"

definition chained_rows :: "chain_db \<Rightarrow> ChainedTransaction list" where
  "chained_rows db = sort_key ct_ChainSeq (map read_chained (filter (\<lambda>r. sr_seq r \<noteq> None) (cdb_rows db)))"

definition GetChainedTransactionsAfter :: "int \<Rightarrow> nat \<Rightarrow> chain_db \<Rightarrow> ChainedTransaction list" where
  "GetChainedTransactionsAfter afterSeq limit db =
     take limit (filter (\<lambda>c. afterSeq < ct_ChainSeq c) (chained_rows db))"

definition CountUnchainedTransactions :: "time \<Rightarrow> chain_db \<Rightarrow> int" where
  "CountUnchainedTransactions cutoff db = int (length (filter (unchained_before cutoff) (cdb_rows db)))"

definition ExportChainCheckpoints :: "chain_db \<Rightarrow> ChainCheckpoint list" where
  "ExportChainCheckpoints db = sort_key cp_Sequence (cdb_checkpoints db)"

subsection \<open>VerifyChainSnapshot\<close>

definition add_issue :: "int \<Rightarrow> string \<Rightarrow> string \<Rightarrow> ChainVerifyResult \<Rightarrow> ChainVerifyResult" where
  "add_issue sq i reason res =
     (let res1 = res\<lparr>vr_Tampering := vr_Tampering res @ [\<lparr>ci_Sequence = sq, ci_TransactionID = i, ci_Reason = reason\<rparr>]\<rparr>
      in if vr_Reason res = [] then res1\<lparr>vr_BrokenSeq := sq, vr_BrokenTxnID := i, vr_Reason := reason\<rparr> else res1)"

fun check_anchors :: "(int \<times> string) list \<Rightarrow> ChainCheckpoint list \<Rightarrow> ChainVerifyResult \<Rightarrow> ChainVerifyResult" where
  "check_anchors roots [] res = res"
| "check_anchors roots (a # anchors) res = check_anchors roots anchors
     (if cp_Sequence a \<le> 0 \<or> cp_Count a \<noteq> cp_Sequence a
      then add_issue (cp_Sequence a) [] ''invalid external checkpoint count or sequence'' res
      else (case map_of roots (cp_Sequence a) of
          None \<Rightarrow> add_issue (cp_Sequence a) [] ''external checkpoint root does not match stored checkpoint'' res
        | Some rt \<Rightarrow>
            if rt \<noteq> cp_HeadHash a
            then add_issue (cp_Sequence a) [] ''external checkpoint root does not match stored checkpoint'' res
            else res))"

record walk =
  wk_head :: string
  wk_count :: int
  wk_roots :: "(int \<times> string) list"
  wk_result :: ChainVerifyResult

definition walk_step :: "ChainedTransaction \<Rightarrow> walk \<Rightarrow> walk" where
  "walk_step c w =
     (let cnt = wk_count w + 1; sq = ct_ChainSeq c; tid = cr_TransactionID (ct_Row c);
          r1 = (if sq \<noteq> cnt then add_issue sq tid (''non-contiguous chain_seq: expected '' @ show_int cnt @ '', got '' @ show_int sq)
                  (wk_result w) else wk_result w);
          r2 = (if ct_ChainPrevHash c \<noteq> wk_head w then add_issue sq tid ''chain_prev_hash does not match running head'' r1 else r1);
          r3 = (case ComputeChainHashVersion (ct_CanonicalVersion c) (ct_ChainPrevHash c) (ct_Row c) of
                  Inl e \<Rightarrow> add_issue sq tid (Error e) r2
                | Inr h \<Rightarrow> if h \<noteq> ct_ChainHash c
                    then add_issue sq tid ''live financial data does not match stored chain_hash'' r2 else r2);
          r4 = (case map_of (wk_roots w) sq of
                  None \<Rightarrow> r3
                | Some rt \<Rightarrow> if rt \<noteq> ct_ChainHash c then add_issue sq tid ''checkpoint root does not match chain'' r3 else r3)
      in \<lparr>wk_head = ct_ChainHash c, wk_count = cnt, wk_roots = AList.delete sq (wk_roots w),
          wk_result = r4\<lparr>vr_LastSeq := sq\<rparr>\<rparr>)"

fun check_checkpoints :: "(int \<times> string) list \<Rightarrow> ChainCheckpoint list \<Rightarrow> ChainVerifyResult \<Rightarrow> ChainVerifyResult" where
  "check_checkpoints roots [] res = res"
| "check_checkpoints roots (c # cps) res =
     (let r1 = (if map_of roots (cp_Sequence c) \<noteq> None
                then add_issue (cp_Sequence c) [] ''checkpoint refers to a missing chain entry'' res else res);
          r2 = (if cp_Count c \<noteq> cp_Sequence c
                then add_issue (cp_Sequence c) [] ''checkpoint count does not match sequence'' r1 else r1)
      in check_checkpoints roots cps r2)"

text \<open>The journal comparison: an INSERT whose row is gone, or differs outside the bookkeeping columns.\<close>

definition legacy_rate :: "chain_db \<Rightarrow> journal_row \<Rightarrow> stored_row \<Rightarrow> string \<Rightarrow> bool" where
  "legacy_rate db j r k \<longleftrightarrow> k = ''rate'' \<and> map_of (sr_json r) ''execution_controls'' \<in> {None, Some JNull} \<and>
     list_ex (\<lambda>tr. tr_column_name tr = k \<and> jr_id j \<le> tr_last_legacy_journal_id tr \<and>
        map_of (sr_json r) k = Some (tr_restored_default tr)) (cdb_transitions db)"

definition journal_differs :: "chain_db \<Rightarrow> journal_row \<Rightarrow> stored_row \<Rightarrow> bool" where
  "journal_differs db j r \<longleftrightarrow>
     list_ex (\<lambda>(k, v). k \<notin> {''meta_data'', ''chain_seq'', ''chain_prev_hash'', ''chain_hash'', ''chain_version''} \<and>
        map_of (sr_json r) k \<noteq> Some v \<and> \<not> legacy_rate db j r k) (jr_new_data j)"

definition journal_issue :: "chain_db \<Rightarrow> journal_row \<Rightarrow> (string \<times> string) option" where
  "journal_issue db j =
     (if jr_action j \<noteq> ''INSERT'' \<or> \<not> jr_succeeded j then None
      else (case filter (\<lambda>r. cr_TransactionID (sr_row r) = jr_transaction_id j) (cdb_rows db) of
          [] \<Rightarrow> Some (jr_transaction_id j, ''committed transaction missing from live data (INSERT journal evidence)'')
        | rs \<Rightarrow> if list_ex (journal_differs db j) rs
                then Some (jr_transaction_id j, ''live financial data differs from INSERT journal evidence'') else None))"

definition journal_issues :: "chain_db \<Rightarrow> (string \<times> string) list" where
  "journal_issues db = sort_key fst (remdups (List.map_filter (journal_issue db) (cdb_journal db)))"

definition empty_result :: ChainVerifyResult where
  "empty_result = \<lparr>vr_Verified = False, vr_LastSeq = 0, vr_HeadHash = [], vr_BrokenSeq = 0, vr_BrokenTxnID = [],
     vr_Reason = [], vr_Pending = 0, vr_Tampering = []\<rparr>"

definition VerifyChainSnapshotWithAnchors :: "chain_db \<Rightarrow> ChainCheckpoint list \<Rightarrow> ChainVerifyResult" where
  "VerifyChainSnapshotWithAnchors db anchors =
     (let st = cdb_state db; checkpoints = ExportChainCheckpoints db;
          roots = fold (\<lambda>c rs. AList.update (cp_Sequence c) (cp_HeadHash c) rs) checkpoints [];
          r1 = check_anchors roots anchors empty_result;
          r2 = (if cs_GenesisHash st \<noteq> ChainGenesisHash then add_issue 0 [] ''unexpected genesis hash'' r1 else r1);
          w = fold walk_step (chained_rows db)
                \<lparr>wk_head = cs_GenesisHash st, wk_count = 0, wk_roots = roots, wk_result = r2\<rparr>;
          r3 = (wk_result w)\<lparr>vr_HeadHash := wk_head w\<rparr>;
          r4 = (if wk_count w \<noteq> cs_LastSeq st \<or> vr_LastSeq r3 \<noteq> cs_LastSeq st \<or> wk_head w \<noteq> cs_HeadHash st
                then add_issue (cs_LastSeq st) [] ''replayed length or head does not match chain_state'' r3 else r3);
          r5 = check_checkpoints (wk_roots w) checkpoints r4;
          r6 = r5\<lparr>vr_Pending := int (length (filter (\<lambda>r. sr_seq r = None) (cdb_rows db)))\<rparr>;
          r7 = fold (\<lambda>(i, reason). add_issue 0 i reason) (journal_issues db) r6
      in r7\<lparr>vr_Verified := (vr_Tampering r7 = [])\<rparr>)"

definition VerifyChainSnapshot :: "chain_db \<Rightarrow> ChainVerifyResult" where
  "VerifyChainSnapshot db = VerifyChainSnapshotWithAnchors db []"

subsection \<open>Lemmas: what a clean walk has seen\<close>

abbreviation clean :: "ChainVerifyResult \<Rightarrow> bool" where
  "clean res \<equiv> vr_Tampering res = []"

lemma clean_add_issue [simp]: "clean (add_issue sq i reason res) \<longleftrightarrow> False"
  by (simp add: add_issue_def Let_def)

definition anchor_ok :: "(int \<times> string) list \<Rightarrow> ChainCheckpoint \<Rightarrow> bool" where
  "anchor_ok roots a \<longleftrightarrow> 0 < cp_Sequence a \<and> cp_Count a = cp_Sequence a \<and> map_of roots (cp_Sequence a) = Some (cp_HeadHash a)"

lemma clean_check_anchors:
  "clean (check_anchors roots anchors res) \<longleftrightarrow> clean res \<and> (\<forall>a \<in> set anchors. anchor_ok roots a)"
  by (induction roots anchors res rule: check_anchors.induct)
     (auto simp: anchor_ok_def not_le split: option.splits if_splits)

lemma clean_check_checkpoints:
  "clean (check_checkpoints roots cps res) \<longleftrightarrow>
     clean res \<and> (\<forall>c \<in> set cps. map_of roots (cp_Sequence c) = None \<and> cp_Count c = cp_Sequence c)"
  by (induction roots cps res rule: check_checkpoints.induct) (auto simp: Let_def)

lemma clean_fold_issues: "clean (fold (\<lambda>(i, reason). add_issue 0 i reason) xs res) \<longleftrightarrow> clean res \<and> xs = []"
proof (induction xs arbitrary: res)
  case (Cons x xs)
  then show ?case by (cases x) simp
qed simp

definition entry_ok :: "walk \<Rightarrow> ChainedTransaction \<Rightarrow> bool" where
  "entry_ok w c \<longleftrightarrow> ct_ChainSeq c = wk_count w + 1 \<and> ct_ChainPrevHash c = wk_head w \<and>
     ComputeChainHashVersion (ct_CanonicalVersion c) (ct_ChainPrevHash c) (ct_Row c) = Inr (ct_ChainHash c) \<and>
     (\<forall>rt. map_of (wk_roots w) (ct_ChainSeq c) = Some rt \<longrightarrow> rt = ct_ChainHash c)"

lemma clean_walk_step: "clean (wk_result (walk_step c w)) \<longleftrightarrow> clean (wk_result w) \<and> entry_ok w c"
proof (cases "ComputeChainHashVersion (ct_CanonicalVersion c) (ct_ChainPrevHash c) (ct_Row c)")
  case (Inr h)
  then show ?thesis
    by (cases "map_of (wk_roots w) (ct_ChainSeq c)") (auto simp: walk_step_def entry_ok_def Let_def)
qed (simp add: walk_step_def entry_ok_def Let_def split: option.split)

lemma walk_step_sel [simp]:
  "wk_head (walk_step c w) = ct_ChainHash c"
  "wk_count (walk_step c w) = wk_count w + 1"
  "wk_roots (walk_step c w) = AList.delete (ct_ChainSeq c) (wk_roots w)"
  "vr_LastSeq (wk_result (walk_step c w)) = ct_ChainSeq c"
  by (simp_all add: walk_step_def Let_def)

definition sealed_row :: "ChainedTransaction \<Rightarrow> int \<times> ChainRow" where
  "sealed_row c = (ct_CanonicalVersion c, ct_Row c)"

fun walk_ok :: "walk \<Rightarrow> ChainedTransaction list \<Rightarrow> bool" where
  "walk_ok w [] = True"
| "walk_ok w (c # cs) = (entry_ok w c \<and> walk_ok (walk_step c w) cs)"

lemma clean_walk: "clean (wk_result (fold walk_step cs w)) \<longleftrightarrow> clean (wk_result w) \<and> walk_ok w cs"
  by (induction cs arbitrary: w) (auto simp: clean_walk_step)

lemma walk_ok_seq:
  "walk_ok w cs \<Longrightarrow> map ct_ChainSeq cs = map (\<lambda>i. wk_count w + 1 + int i) [0 ..< length cs]"
proof (induction cs arbitrary: w)
  case (Cons c cs)
  have "map (\<lambda>i. wk_count w + 1 + int i) [0 ..< length (c # cs)] =
      (wk_count w + 1) # map (\<lambda>i. wk_count w + 1 + 1 + int i) [0 ..< length cs]"
    by (simp add: upt_conv_Cons map_Suc_upt [symmetric] comp_def algebra_simps del: upt_Suc)
  with Cons.IH [of "walk_step c w"] Cons.prems show ?case by (simp add: entry_ok_def del: upt_Suc)
qed simp

lemma walk_ok_linked:
  "walk_ok w cs \<Longrightarrow> linked chain_digest encode_row (wk_head w) (map sealed_row cs) (wk_head (fold walk_step cs w))"
proof (induction cs arbitrary: w)
  case (Cons c cs)
  then obtain m where "encode_row (wk_head w) (sealed_row c) = Some m" "ct_ChainHash c = chain_digest m"
    by (auto simp: entry_ok_def encode_row_def sealed_row_def ComputeChainHashVersion_bytes)
  with Cons.IH [of "walk_step c w"] Cons.prems show ?case by simp
qed simp

lemma walk_ok_seq_ge: "walk_ok w cs \<Longrightarrow> c \<in> set cs \<Longrightarrow> wk_count w < ct_ChainSeq c"
  by (induction cs arbitrary: w) (fastforce simp: entry_ok_def)+

lemma walk_ok_roots:
  "walk_ok w cs \<Longrightarrow> c \<in> set cs \<Longrightarrow> map_of (wk_roots w) (ct_ChainSeq c) = Some rt \<Longrightarrow> rt = ct_ChainHash c"
proof (induction cs arbitrary: w)
  case (Cons x cs)
  show ?case
  proof (cases "c \<in> set cs")
    case True
    then have "ct_ChainSeq c \<noteq> ct_ChainSeq x"
      using walk_ok_seq_ge [of "walk_step x w" cs c] Cons.prems by (auto simp: entry_ok_def)
    with Cons.IH [of "walk_step x w"] Cons.prems True show ?thesis by (auto simp: delete_conv')
  qed (use Cons.prems in \<open>auto simp: entry_ok_def\<close>)
qed simp

lemma fold_walk_roots:
  "map_of (wk_roots (fold walk_step cs w)) = map_of (wk_roots w) |` (- ct_ChainSeq ` set cs)"
  by (induction cs arbitrary: w) (auto simp: delete_conv' restrict_map_def fun_eq_iff)

lemma fold_walk_count: "wk_count (fold walk_step cs w) = wk_count w + int (length cs)"
  by (induction cs arbitrary: w) auto

lemma roots_map_of:
  "map_of (fold (\<lambda>c rs. AList.update (cp_Sequence c) (cp_HeadHash c) rs) cps al) =
     map_of al ++ map_of (rev (map (\<lambda>c. (cp_Sequence c, cp_HeadHash c)) cps))"
  by (induction cps arbitrary: al) (auto simp: update_conv' fun_eq_iff map_add_def split: option.splits)

lemma walk_ok_append: "walk_ok w (xs @ ys) \<longleftrightarrow> walk_ok w xs \<and> walk_ok (fold walk_step xs w) ys"
  by (induction xs arbitrary: w) auto

lemma walk_ok_prefix:
  assumes "walk_ok w cs" "c \<in> set cs" "ct_ChainSeq c = wk_count w + int n" "n \<le> length cs"
  shows "linked chain_digest encode_row (wk_head w) (map sealed_row (take n cs)) (ct_ChainHash c)"
proof -
  obtain xs ys where cs: "cs = xs @ c # ys" using assms(2) by (auto simp: in_set_conv_decomp)
  with assms(1) have xs: "walk_ok w (xs @ [c])" by (simp add: walk_ok_append)
  have "entry_ok (fold walk_step xs w) c" using xs by (simp add: walk_ok_append)
  then have n: "n = length (xs @ [c])" using assms(3) by (simp add: entry_ok_def fold_walk_count)
  have t: "take n cs = xs @ [c]" unfolding n cs by simp
  show ?thesis unfolding t using walk_ok_linked [OF xs] by simp
qed

text \<open>Everything a clean verification has established.\<close>

lemma verified_facts:
  assumes "vr_Verified (VerifyChainSnapshotWithAnchors db anchors)"
  defines "cs \<equiv> chained_rows db"
  shows "map ct_ChainSeq cs = map (\<lambda>i. 1 + int i) [0 ..< length cs]"
    and "linked chain_digest encode_row ChainGenesisHash (map sealed_row cs) (cs_HeadHash (cdb_state db))"
    and "cs_LastSeq (cdb_state db) = int (length cs)"
    and "\<forall>c \<in> set (cdb_checkpoints db). \<exists>x \<in> set cs. ct_ChainSeq x = cp_Sequence c"
    and "\<forall>a \<in> set anchors. \<exists>x \<in> set cs. ct_ChainSeq x = cp_Sequence a \<and> ct_ChainHash x = cp_HeadHash a"
    and "journal_issues db = []" and "cs_GenesisHash (cdb_state db) = ChainGenesisHash"
    and "c \<in> set cs \<Longrightarrow> linked chain_digest encode_row ChainGenesisHash
           (map sealed_row (take (nat (ct_ChainSeq c)) cs)) (ct_ChainHash c)"
proof -
  define roots where "roots = fold (\<lambda>c rs. AList.update (cp_Sequence c) (cp_HeadHash c) rs) (ExportChainCheckpoints db) []"
  define r1 where "r1 = check_anchors roots anchors empty_result"
  define w0 where "w0 = \<lparr>wk_head = cs_GenesisHash (cdb_state db), wk_count = 0, wk_roots = roots,
    wk_result = (if cs_GenesisHash (cdb_state db) \<noteq> ChainGenesisHash then add_issue 0 [] ''unexpected genesis hash'' r1 else r1)\<rparr>"
  define w where "w = fold walk_step cs w0"
  note clean_simps = clean_check_checkpoints clean_fold_issues
  have "clean (wk_result w)" and last: "wk_count w = cs_LastSeq (cdb_state db)" "wk_head w = cs_HeadHash (cdb_state db)"
    and cps: "\<forall>c \<in> set (ExportChainCheckpoints db). map_of (wk_roots w) (cp_Sequence c) = None"
    and j: "journal_issues db = []"
    using assms(1)
    unfolding VerifyChainSnapshotWithAnchors_def Let_def roots_def [symmetric] r1_def [symmetric]
      w0_def [symmetric] cs_def [symmetric] w_def [symmetric]
    by (simp_all add: clean_simps split: if_splits)
  then have w0: "clean (wk_result w0)" "walk_ok w0 cs" by (auto simp: w_def clean_walk)
  then have gen: "cs_GenesisHash (cdb_state db) = ChainGenesisHash" and "clean r1"
    by (auto simp: w0_def split: if_splits)
  then have anc: "\<forall>a \<in> set anchors. anchor_ok roots a" by (simp add: r1_def clean_check_anchors)
  show "map ct_ChainSeq cs = map (\<lambda>i. 1 + int i) [0 ..< length cs]" using walk_ok_seq [OF w0(2)] by (simp add: w0_def)
  show "linked chain_digest encode_row ChainGenesisHash (map sealed_row cs) (cs_HeadHash (cdb_state db))"
    using walk_ok_linked [OF w0(2)] last(2) gen by (simp add: w_def w0_def)
  show "cs_LastSeq (cdb_state db) = int (length cs)" using last(1) by (simp add: w_def fold_walk_count w0_def)
  show "journal_issues db = []" by (rule j)
  show "cs_GenesisHash (cdb_state db) = ChainGenesisHash" by (rule gen)
  show "linked chain_digest encode_row ChainGenesisHash (map sealed_row (take (nat (ct_ChainSeq c)) cs)) (ct_ChainHash c)"
    if c: "c \<in> set cs"
  proof -
    have "map ct_ChainSeq cs = map (\<lambda>i. 1 + int i) [0 ..< length cs]" using walk_ok_seq [OF w0(2)] by (simp add: w0_def)
    moreover have "ct_ChainSeq c \<in> set (map ct_ChainSeq cs)" using c by simp
    ultimately have "ct_ChainSeq c \<in> set (map (\<lambda>i. 1 + int i) [0 ..< length cs])" by (simp only:)
    then have "0 \<le> ct_ChainSeq c" "nat (ct_ChainSeq c) \<le> length cs" by auto
    with walk_ok_prefix [OF w0(2) c, of "nat (ct_ChainSeq c)"] gen show ?thesis by (simp add: w0_def)
  qed
  have seen: "\<exists>x \<in> set cs. ct_ChainSeq x = sq" if "sq \<in> cp_Sequence ` set (cdb_checkpoints db)" for sq
  proof -
    from that have "map_of (wk_roots w) sq = None" using cps by (auto simp: ExportChainCheckpoints_def)
    moreover have "map_of roots sq \<noteq> None"
      using that by (auto simp: roots_def roots_map_of ExportChainCheckpoints_def map_of_eq_None_iff image_image)
    ultimately show ?thesis
      by (auto simp: w_def fold_walk_roots w0_def restrict_map_def split: if_splits)
  qed
  then show "\<forall>c \<in> set (cdb_checkpoints db). \<exists>x \<in> set cs. ct_ChainSeq x = cp_Sequence c" by auto
  show "\<forall>a \<in> set anchors. \<exists>x \<in> set cs. ct_ChainSeq x = cp_Sequence a \<and> ct_ChainHash x = cp_HeadHash a"
  proof
    fix a assume "a \<in> set anchors"
    with anc have root: "map_of roots (cp_Sequence a) = Some (cp_HeadHash a)" by (simp add: anchor_ok_def)
    then have "cp_Sequence a \<in> cp_Sequence ` set (cdb_checkpoints db)"
      by (auto simp: roots_def roots_map_of ExportChainCheckpoints_def dest!: map_of_SomeD)
    with seen obtain x where x: "x \<in> set cs" "ct_ChainSeq x = cp_Sequence a" by blast
    with walk_ok_roots [OF w0(2), of x] root have "ct_ChainHash x = cp_HeadHash a" by (simp add: w0_def)
    with x show "\<exists>x \<in> set cs. ct_ChainSeq x = cp_Sequence a \<and> ct_ChainHash x = cp_HeadHash a" by blast
  qed
qed

subsection \<open>Lemmas: sealing keeps the chain verifiable\<close>

definition base_walk :: walk where
  "base_walk = \<lparr>wk_head = ChainGenesisHash, wk_count = 0, wk_roots = [], wk_result = empty_result\<rparr>"

definition rows_chain :: "stored_row list \<Rightarrow> ChainedTransaction list" where
  "rows_chain rows = sort_key ct_ChainSeq (map read_chained (filter (\<lambda>r. sr_seq r \<noteq> None) rows))"

lemma chained_rows_eq: "chained_rows db = rows_chain (cdb_rows db)"
  by (simp add: chained_rows_def rows_chain_def)

definition chain_ok :: "stored_row list \<Rightarrow> ChainCheckpoint list \<Rightarrow> int \<Rightarrow> string \<Rightarrow> bool" where
  "chain_ok rows cps lastSeq head \<longleftrightarrow>
     distinct (map sr_id rows) \<and> walk_ok base_walk (rows_chain rows) \<and>
     wk_head (fold walk_step (rows_chain rows) base_walk) = head \<and> lastSeq = int (length (rows_chain rows)) \<and>
     distinct (map cp_Sequence cps) \<and>
     (\<forall>c \<in> set cps. cp_Count c = cp_Sequence c \<and>
        (\<exists>x \<in> set (rows_chain rows). ct_ChainSeq x = cp_Sequence c \<and> ct_ChainHash x = cp_HeadHash c))"

lemma entry_ok_cong:
  "wk_head w = wk_head w' \<Longrightarrow> wk_count w = wk_count w' \<Longrightarrow> wk_roots w' = [] \<Longrightarrow>
   entry_ok w c \<longleftrightarrow> entry_ok w' c \<and> (\<forall>rt. map_of (wk_roots w) (ct_ChainSeq c) = Some rt \<longrightarrow> rt = ct_ChainHash c)"
  by (auto simp: entry_ok_def)

lemma walk_ok_cong:
  assumes "wk_head w = wk_head w'" "wk_count w = wk_count w'" "wk_roots w' = []"
    "walk_ok w' cs" "\<forall>c \<in> set cs. \<forall>rt. map_of (wk_roots w) (ct_ChainSeq c) = Some rt \<longrightarrow> rt = ct_ChainHash c"
  shows "walk_ok w cs \<and> wk_head (fold walk_step cs w) = wk_head (fold walk_step cs w')"
  using assms
proof (induction cs arbitrary: w w')
  case (Cons c cs)
  have "walk_ok (walk_step c w) cs \<and> wk_head (fold walk_step cs (walk_step c w)) = wk_head (fold walk_step cs (walk_step c w'))"
    using Cons.prems by (intro Cons.IH) (auto simp: delete_conv')
  moreover have "entry_ok w c" using Cons.prems entry_ok_cong [of w w' c] by simp
  ultimately show ?case by simp
qed simp

lemma rows_chain_seq:
  "walk_ok base_walk cs \<Longrightarrow> map ct_ChainSeq cs = map (\<lambda>i. 1 + int i) [0 ..< length cs]"
  using walk_ok_seq [of base_walk cs] by (simp add: base_walk_def)

lemma rows_chain_distinct: "walk_ok base_walk cs \<Longrightarrow> distinct (map ct_ChainSeq cs)"
  by (simp add: rows_chain_seq distinct_map inj_on_def)

lemma rows_chain_bound: "walk_ok base_walk cs \<Longrightarrow> c \<in> set cs \<Longrightarrow> 0 < ct_ChainSeq c \<and> ct_ChainSeq c \<le> int (length cs)"
proof -
  assume ok: "walk_ok base_walk cs" and c: "c \<in> set cs"
  have "ct_ChainSeq c \<in> set (map ct_ChainSeq cs)" using c by simp
  then show ?thesis unfolding rows_chain_seq [OF ok] by auto
qed

lemma set_rows_chain: "set (rows_chain rows) = read_chained ` {r \<in> set rows. sr_seq r \<noteq> None}"
  by (simp add: rows_chain_def)

lemma seal_row_others:
  assumes "distinct (map sr_id (A @ r # B))" "li_id l = sr_id r"
  shows "map (seal_row l) A = A" "map (seal_row l) B = B"
proof -
  have "seal_row l x = x" if "x \<in> set A \<union> set B" for x
  proof -
    have "sr_id x \<in> sr_id ` set A \<union> sr_id ` set B" using that by blast
    moreover have "sr_id r \<notin> sr_id ` set A \<union> sr_id ` set B" using assms(1) by simp
    ultimately have "sr_id x \<noteq> sr_id r" by metis
    then show ?thesis by (simp add: seal_row_def assms(2))
  qed
  then show "map (seal_row l) A = A" "map (seal_row l) B = B" by (auto intro: map_idI)
qed

lemma distinct_map_insert:
  "distinct (map f (xs @ ys)) \<Longrightarrow> f c \<notin> f ` set (xs @ ys) \<Longrightarrow> distinct (map f (xs @ c # ys))"
  by auto

lemma rows_chain_seal:
  assumes d: "distinct (map sr_id rows)" and r: "r \<in> set rows" "sr_seq r = None"
    and ok: "walk_ok base_walk (rows_chain rows)"
    and l: "li_id l = sr_id r" "li_seq l = int (length (rows_chain rows)) + 1"
  shows "rows_chain (map (seal_row l) rows) = rows_chain rows @ [read_chained (seal_row l r)]"
proof -
  obtain A B where rows: "rows = A @ r # B" using r(1) by (auto simp: in_set_conv_decomp)
  let ?f = "\<lambda>rs. map read_chained (filter (\<lambda>r. sr_seq r \<noteq> None) rs)" and ?c = "read_chained (seal_row l r)"
  have seq: "ct_ChainSeq ?c = int (length (rows_chain rows)) + 1"
    using r(2) l by (simp add: seal_row_def read_chained_def)
  have new: "?f (map (seal_row l) rows) = ?f A @ ?c # ?f B"
    using seal_row_others [of A r B l] d l(1) r(2) by (simp add: rows) (simp add: seal_row_def)
  have old: "?f rows = ?f A @ ?f B" using r(2) by (simp add: rows)
  have dist: "distinct (map ct_ChainSeq (?f rows))"
    using rows_chain_distinct [OF ok] by (simp only: rows_chain_def distinct_map distinct_sort set_sort)
  have small: "x \<in> set (?f rows) \<Longrightarrow> ct_ChainSeq x < ct_ChainSeq ?c" for x
    using rows_chain_bound [OF ok, of x] seq by (simp add: rows_chain_def)
  have fresh: "ct_ChainSeq ?c \<notin> ct_ChainSeq ` set (?f rows)" using small by force
  have dnew: "distinct (map ct_ChainSeq (?f A @ ?c # ?f B))"
    by (rule distinct_map_insert [OF dist [unfolded old] fresh [unfolded old]])
  show ?thesis
  proof (rule map_sorted_distinct_set_unique [where f = ct_ChainSeq])
    show "distinct (map ct_ChainSeq (rows_chain (map (seal_row l) rows)))"
      using dnew by (simp only: rows_chain_def new distinct_map distinct_sort set_sort)
    show "sorted (map ct_ChainSeq (rows_chain rows @ [?c]))"
      using small by (auto simp: rows_chain_def sorted_append less_imp_le)
    show "distinct (map ct_ChainSeq (rows_chain rows @ [?c]))"
      using rows_chain_distinct [OF ok] fresh by (simp add: rows_chain_def)
    show set_eq: "set (rows_chain (map (seal_row l) rows)) = set (rows_chain rows @ [?c])"
      unfolding rows_chain_def new old by simp
    have "inj_on ct_ChainSeq (set (?f A @ ?c # ?f B))" using dnew by (simp only: distinct_map)
    moreover have "set (rows_chain rows) = set (?f A @ ?f B)" unfolding rows_chain_def set_sort old ..
    then have "set (rows_chain rows @ [?c]) = set (?f A @ ?c # ?f B)" by auto
    ultimately show "inj_on ct_ChainSeq (set (rows_chain (map (seal_row l) rows)) \<union> set (rows_chain rows @ [?c]))"
      unfolding set_eq by simp
  qed (simp add: rows_chain_def)
qed

lemma ids_seal [simp]: "map sr_id (map (seal_row l) rows) = map sr_id rows"
  by (simp add: seal_row_def)

text \<open>One link, with or without its checkpoint, takes a sound chain to a sound chain.\<close>

lemma chain_ok_seal:
  assumes ok: "chain_ok rows cps n head" and r: "r \<in> set rows" "sr_seq r = None"
    and l: "li_id l = sr_id r" "li_seq l = n + 1" "li_prevHash l = head"
    and h: "ComputeChainHashVersion 3 head (sr_row r) = Inr (li_hash l)"
  shows "chain_ok (map (seal_row l) rows) cps (n + 1) (li_hash l)"
    and "\<forall>c \<in> set cps. cp_Sequence c \<noteq> n + 1"
    and "\<forall>x \<in> set rows. sr_seq x \<noteq> Some (n + 1)"
    and "\<exists>x \<in> set (rows_chain (map (seal_row l) rows)). ct_ChainSeq x = n + 1 \<and> ct_ChainHash x = li_hash l"
proof -
  have d: "distinct (map sr_id rows)" and w: "walk_ok base_walk (rows_chain rows)" and n: "n = int (length (rows_chain rows))"
    and hd: "wk_head (fold walk_step (rows_chain rows) base_walk) = head"
    and c: "\<forall>c \<in> set cps. \<exists>x \<in> set (rows_chain rows). ct_ChainSeq x = cp_Sequence c"
    using ok by (auto simp: chain_ok_def)
  let ?c = "read_chained (seal_row l r)"
  have chain: "rows_chain (map (seal_row l) rows) = rows_chain rows @ [?c]"
    using rows_chain_seal [OF d r w l(1)] l(2) n by simp
  have sel: "ct_ChainSeq ?c = n + 1" "ct_ChainHash ?c = li_hash l" "ct_ChainPrevHash ?c = head"
    "ct_CanonicalVersion ?c = 3" "ct_Row ?c = sr_row r"
    using r(2) l by (simp_all add: seal_row_def read_chained_def)
  have roots: "wk_roots (fold walk_step cs base_walk) = []" for cs
    by (induction cs rule: rev_induct) (simp_all add: base_walk_def)
  have "entry_ok (fold walk_step (rows_chain rows) base_walk) ?c"
    using hd n h roots [of "rows_chain rows"] by (simp add: entry_ok_def sel fold_walk_count base_walk_def)
  then show "chain_ok (map (seal_row l) rows) cps (n + 1) (li_hash l)"
    using ok by (auto simp: chain_ok_def chain walk_ok_append sel simp del: map_map)
  show "\<forall>c \<in> set cps. cp_Sequence c \<noteq> n + 1" using c rows_chain_bound [OF w] n by force
  show "\<forall>x \<in> set rows. sr_seq x \<noteq> Some (n + 1)"
  proof
    fix x assume x: "x \<in> set rows"
    show "sr_seq x \<noteq> Some (n + 1)"
    proof
      assume s: "sr_seq x = Some (n + 1)"
      then have "read_chained x \<in> set (rows_chain rows)" using x by (simp add: set_rows_chain)
      from rows_chain_bound [OF w this] s n show False by (simp add: read_chained_def)
    qed
  qed
  show "\<exists>x \<in> set (rows_chain (map (seal_row l) rows)). ct_ChainSeq x = n + 1 \<and> ct_ChainHash x = li_hash l"
    using chain sel by auto
qed

lemma chain_ok_checkpoint:
  assumes "chain_ok rows cps n head" "\<forall>c \<in> set cps. cp_Sequence c \<noteq> k"
    "\<exists>x \<in> set (rows_chain rows). ct_ChainSeq x = k \<and> ct_ChainHash x = h"
  shows "chain_ok rows (insort_key cp_Sequence \<lparr>cp_Sequence = k, cp_Count = k, cp_HeadHash = h, cp_CreatedAt = t\<rparr> cps) n head"
  using assms
  by (auto simp: chain_ok_def set_insort_key distinct_map distinct_insort inj_on_def)

lemma link_batch_total: "\<exists>ls. link_batch n head rs = Inr ls \<and> length ls = length rs"
proof (induction rs arbitrary: n head)
  case (Cons r rs)
  obtain h where h: "ComputeChainHashVersion 3 head (sr_row r) = Inr h" by (simp add: ComputeChainHashVersion_def)
  from Cons [of "n + 1" h] obtain ls where "link_batch (n + 1) h rs = Inr ls" "length ls = length rs" by blast
  with h show ?case by simp
qed simp

lemma write_batch_ok:
  assumes "link_batch n head rs = Inr ls" "chain_ok (cdb_rows db) (cdb_checkpoints db) n head"
    "set rs \<subseteq> {r \<in> set (cdb_rows db). sr_seq r = None}" "distinct (map sr_id rs)"
  shows "\<exists>db'. write_batch now m ls db = Inr db' \<and>
    chain_ok (cdb_rows db') (cdb_checkpoints db') (n + int (length rs)) (if rs = [] then head else li_hash (last ls)) \<and>
    cdb_state db' = cdb_state db \<and> cdb_journal db' = cdb_journal db \<and> cdb_transitions db' = cdb_transitions db \<and>
    map sr_row (cdb_rows db') = map sr_row (cdb_rows db) \<and> map sr_json (cdb_rows db') = map sr_json (cdb_rows db)"
  using assms
proof (induction rs arbitrary: n head ls db)
  case Nil
  then show ?case by auto
next
  case (Cons r rs)
  obtain h ls' where h: "ComputeChainHashVersion 3 head (sr_row r) = Inr h"
    and ls': "link_batch (n + 1) h rs = Inr ls'"
    and ls: "ls = \<lparr>li_id = sr_id r, li_seq = n + 1, li_prevHash = head, li_hash = h\<rparr> # ls'"
    using Cons.prems(1) by (auto simp: bindE_Inr_iff)
  let ?l = "\<lparr>li_id = sr_id r, li_seq = n + 1, li_prevHash = head, li_hash = h\<rparr>"
  have r: "r \<in> set (cdb_rows db)" "sr_seq r = None" using Cons.prems(3) by auto
  note step = chain_ok_seal [OF Cons.prems(2) r, of ?l, simplified, OF h]
  define db1 where "db1 = db\<lparr>cdb_rows := map (seal_row ?l) (cdb_rows db)\<rparr>"
  have w1: "write_link ?l db = Inr db1"
    using step(3) by (auto simp: write_link_def list_ex_iff db1_def)
  define cp where "cp = \<lparr>cp_Sequence = n + 1, cp_Count = n + 1, cp_HeadHash = h, cp_CreatedAt = now\<rparr>"
  define due where "due \<longleftrightarrow> (n + 1) mod 1000 = 0 \<or> n + 1 = m"
  define db2 where "db2 = (if due then db1\<lparr>cdb_checkpoints := insort_key cp_Sequence cp (cdb_checkpoints db)\<rparr> else db1)"
  have "0 \<le> n" using Cons.prems(2) by (auto simp: chain_ok_def)
  then have w2: "(if due then write_checkpoint now ?l db1 else Inr db1) = Inr db2"
    using step(2) by (auto simp: write_checkpoint_def db1_def db2_def cp_def list_ex_iff)
  have ok2: "chain_ok (cdb_rows db2) (cdb_checkpoints db2) (n + 1) h"
    using step(1) chain_ok_checkpoint [OF step(1,2,4), of now] by (simp add: db1_def db2_def cp_def)
  have rows2: "map (seal_row ?l) (cdb_rows db) = cdb_rows db2" by (simp add: db2_def db1_def)
  have sub: "set rs \<subseteq> {x \<in> set (cdb_rows db2). sr_seq x = None}"
  proof
    fix x assume x: "x \<in> set rs"
    then have "sr_id x \<in> sr_id ` set rs" by simp
    moreover have "sr_id r \<notin> sr_id ` set rs" using Cons.prems(4) by simp
    ultimately have "sr_id x \<noteq> sr_id r" by metis
    then have same: "seal_row ?l x = x" by (simp add: seal_row_def)
    have mem: "x \<in> set (cdb_rows db)" "sr_seq x = None" using x Cons.prems(3) by auto
    from mem(1) have "seal_row ?l x \<in> set (map (seal_row ?l) (cdb_rows db))" unfolding set_map by (rule imageI)
    then show "x \<in> {x \<in> set (cdb_rows db2). sr_seq x = None}" unfolding same rows2 using mem(2) by simp
  qed
  have frame: "cdb_state db2 = cdb_state db" "cdb_journal db2 = cdb_journal db" "cdb_transitions db2 = cdb_transitions db"
    "map sr_row (cdb_rows db2) = map sr_row (cdb_rows db)" "map sr_json (cdb_rows db2) = map sr_json (cdb_rows db)"
    by (auto simp: db2_def db1_def seal_row_def)
  have "write_batch now m ls db = write_batch now m ls' db2"
    using w1 w2 by (simp add: ls due_def)
  moreover have "(if rs = [] then h else li_hash (last ls')) = li_hash (last ls)"
    using link_batch_total [of "n + 1" h rs] ls' by (cases ls') (auto simp: ls)
  ultimately show ?case
    using Cons.IH [OF ls' ok2 sub] Cons.prems(4) frame by (simp add: add.assoc add.commute [of 1])
qed

definition db_ok :: "chain_db \<Rightarrow> bool" where
  "db_ok db \<longleftrightarrow> chain_ok (cdb_rows db) (cdb_checkpoints db) (cs_LastSeq (cdb_state db)) (cs_HeadHash (cdb_state db)) \<and>
     cs_GenesisHash (cdb_state db) = ChainGenesisHash"

lemma ChainPendingTransactions_ok:
  assumes "db_ok db" "0 < n"
  shows "\<exists>db'. ChainPendingTransactions now cutoff n db = Inr (db', int (length (pending_batch cutoff n db))) \<and>
    db_ok db' \<and> cdb_journal db' = cdb_journal db \<and> cdb_transitions db' = cdb_transitions db \<and>
    map sr_row (cdb_rows db') = map sr_row (cdb_rows db) \<and> map sr_json (cdb_rows db') = map sr_json (cdb_rows db) \<and>
    length (chained_rows db') = length (chained_rows db) + length (pending_batch cutoff n db)"
proof -
  let ?rs = "pending_batch cutoff n db"
  have ok: "chain_ok (cdb_rows db) (cdb_checkpoints db) (cs_LastSeq (cdb_state db)) (cs_HeadHash (cdb_state db))"
    and gen: "cs_GenesisHash (cdb_state db) = ChainGenesisHash" using assms(1) by (auto simp: db_ok_def)
  have sub: "set ?rs \<subseteq> {r \<in> set (cdb_rows db). sr_seq r = None}"
    by (auto simp: pending_batch_def unchained_before_def dest: in_set_takeD)
  have "distinct (map sr_id (sort_key sr_id (filter (unchained_before cutoff) (cdb_rows db))))"
    using ok by (auto simp: chain_ok_def distinct_map intro: inj_on_subset)
  then have dist: "distinct (map sr_id ?rs)"
    unfolding pending_batch_def take_map [symmetric] by (rule distinct_take)
  obtain ls where ls: "link_batch (cs_LastSeq (cdb_state db)) (cs_HeadHash (cdb_state db)) ?rs = Inr ls" "length ls = length ?rs"
    using link_batch_total by blast
  show ?thesis
  proof (cases "?rs = []")
    case True
    then show ?thesis using assms ls by (auto simp: ChainPendingTransactions_def Let_def)
  next
    case False
    let ?m = "cs_LastSeq (cdb_state db) + int (length ls)"
    from write_batch_ok [OF ls(1) ok sub dist, of now ?m] obtain db1 where
      w: "write_batch now ?m ls db = Inr db1"
      and ok1: "chain_ok (cdb_rows db1) (cdb_checkpoints db1) (cs_LastSeq (cdb_state db) + int (length ?rs)) (li_hash (last ls))"
      and fr: "cdb_state db1 = cdb_state db" "cdb_journal db1 = cdb_journal db" "cdb_transitions db1 = cdb_transitions db"
        "map sr_row (cdb_rows db1) = map sr_row (cdb_rows db)" "map sr_json (cdb_rows db1) = map sr_json (cdb_rows db)"
      using False by auto
    define db2 where "db2 = db1\<lparr>cdb_state := (cdb_state db)\<lparr>cs_LastSeq := ?m, cs_HeadHash := li_hash (last ls), cs_UpdatedAt := now\<rparr>\<rparr>"
    have "ChainPendingTransactions now cutoff n db = Inr (db2, int (length ?rs))"
      using assms(2) ls False w by (auto simp: ChainPendingTransactions_def Let_def db2_def)
    moreover have "db_ok db2" using ok1 gen ls(2) by (simp add: db_ok_def db2_def)
    moreover have "length (chained_rows db2) = length (chained_rows db) + length ?rs"
      using ok1 ok by (simp add: chain_ok_def chained_rows_eq db2_def)
    ultimately show ?thesis using fr by (intro exI [of _ db2]) (simp add: db2_def)
  qed
qed

lemma db_ok_verified:
  assumes "db_ok db" "journal_issues db = []" "set anchors \<subseteq> set (cdb_checkpoints db)"
  shows "vr_Verified (VerifyChainSnapshotWithAnchors db anchors)"
proof -
  define roots where "roots = fold (\<lambda>c rs. AList.update (cp_Sequence c) (cp_HeadHash c) rs) (ExportChainCheckpoints db) []"
  define cs where "cs = chained_rows db"
  define w0 where "w0 = \<lparr>wk_head = ChainGenesisHash, wk_count = 0, wk_roots = roots, wk_result = check_anchors roots anchors empty_result\<rparr>"
  define w where "w = fold walk_step cs w0"
  from assms(1) have ok: "walk_ok base_walk cs" "wk_head (fold walk_step cs base_walk) = cs_HeadHash (cdb_state db)"
    "cs_LastSeq (cdb_state db) = int (length cs)" "cs_GenesisHash (cdb_state db) = ChainGenesisHash"
    and dcp: "distinct (map cp_Sequence (cdb_checkpoints db))"
    and cps: "\<forall>c \<in> set (cdb_checkpoints db). cp_Count c = cp_Sequence c \<and>
        (\<exists>x \<in> set cs. ct_ChainSeq x = cp_Sequence c \<and> ct_ChainHash x = cp_HeadHash c)"
    by (auto simp: db_ok_def chain_ok_def cs_def chained_rows_eq)
  have inj: "inj_on ct_ChainSeq (set cs)" using rows_chain_distinct [OF ok(1)] by (simp add: distinct_map)
  have roots: "rt = ct_ChainHash c" if "c \<in> set cs" "map_of roots (ct_ChainSeq c) = Some rt" for c rt
  proof -
    from that(2) obtain p where "p \<in> set (cdb_checkpoints db)" "cp_Sequence p = ct_ChainSeq c" "cp_HeadHash p = rt"
      by (auto simp: roots_def roots_map_of ExportChainCheckpoints_def dest!: map_of_SomeD)
    with cps inj that(1) show ?thesis by (metis inj_onD)
  qed
  have walk: "walk_ok w0 cs" "wk_head w = cs_HeadHash (cdb_state db)"
    using walk_ok_cong [of w0 base_walk cs] ok roots by (auto simp: w0_def w_def base_walk_def)
  have count: "wk_count w = cs_LastSeq (cdb_state db)" using ok(3) by (simp add: w_def fold_walk_count w0_def)
  have last: "vr_LastSeq (wk_result w) = cs_LastSeq (cdb_state db)"
  proof (cases cs rule: rev_cases)
    case Nil
    have "vr_LastSeq (check_anchors roots as res) = vr_LastSeq res" for as res
      by (induction roots as res rule: check_anchors.induct) (simp_all add: add_issue_def Let_def split: option.split)
    with Nil show ?thesis using ok(3) by (simp add: w_def w0_def empty_result_def)
  next
    case (snoc xs x)
    with walk(1) have "entry_ok (fold walk_step xs w0) x" by (simp add: walk_ok_append)
    then show ?thesis using ok(3) by (simp add: w_def snoc entry_ok_def fold_walk_count w0_def)
  qed
  have seen: "map_of (wk_roots w) (cp_Sequence c) = None" if "c \<in> set (cdb_checkpoints db)" for c
    using cps that by (auto simp: w_def fold_walk_roots restrict_map_def) (metis image_eqI)
  have "anchor_ok roots a" if "a \<in> set anchors" for a
  proof -
    from that assms(3) have a: "a \<in> set (cdb_checkpoints db)" by blast
    with cps obtain x where "x \<in> set cs" "ct_ChainSeq x = cp_Sequence a" by blast
    with rows_chain_bound [OF ok(1)] have "0 < cp_Sequence a" by metis
    moreover have "map_of (rev (map (\<lambda>c. (cp_Sequence c, cp_HeadHash c)) (ExportChainCheckpoints db))) (cp_Sequence a) = Some (cp_HeadHash a)"
      using dcp a by (intro map_of_is_SomeI) (auto simp: ExportChainCheckpoints_def distinct_map inj_on_def comp_def)
    ultimately show ?thesis using cps a by (simp add: anchor_ok_def roots_def roots_map_of)
  qed
  then have "clean (wk_result w)" using walk(1) by (simp add: w_def clean_walk w0_def empty_result_def clean_check_anchors)
  moreover have "cp_Count c = cp_Sequence c" if "c \<in> set (cdb_checkpoints db)" for c using cps that by blast
  ultimately show ?thesis
    unfolding VerifyChainSnapshotWithAnchors_def Let_def roots_def [symmetric]
    using ok(4) walk(2) count last seen assms(2)
    by (simp add: cs_def [symmetric] w0_def [symmetric] w_def [symmetric] clean_check_checkpoints ExportChainCheckpoints_def)
qed

subsection \<open>Runs of the chain\<close>

text \<open>
  A run starts from the seeded \<open>chain_state\<close> row. Transactions are inserted unsealed under
  a fresh id, and the insert trigger journals them; the chainer seals batches.
\<close>

definition seeded_db :: "time \<Rightarrow> schema_transition list \<Rightarrow> chain_db" where
  "seeded_db now trs = \<lparr>cdb_rows = [],
     cdb_state = \<lparr>cs_ChainKey = ''global'', cs_LastSeq = 0, cs_HeadHash = ChainGenesisHash,
       cs_GenesisHash = ChainGenesisHash, cs_GenesisAt = now, cs_UpdatedAt = now\<rparr>,
     cdb_checkpoints = [], cdb_journal = [], cdb_transitions = trs\<rparr>"

definition insert_row :: "int \<Rightarrow> stored_row \<Rightarrow> chain_db \<Rightarrow> chain_db" where
  "insert_row jid r db = db\<lparr>cdb_rows := cdb_rows db @ [r],
     cdb_journal := cdb_journal db @ [\<lparr>jr_id = jid, jr_transaction_id = cr_TransactionID (sr_row r), jr_action = ''INSERT'',
       jr_succeeded = True, jr_new_data = sr_json r\<rparr>]\<rparr>"

definition fresh_row :: "stored_row \<Rightarrow> chain_db \<Rightarrow> bool" where
  "fresh_row r db \<longleftrightarrow> sr_seq r = None \<and> distinct (map fst (sr_json r)) \<and> sr_id r \<notin> sr_id ` set (cdb_rows db) \<and>
     cr_TransactionID (sr_row r) \<notin> (cr_TransactionID \<circ> sr_row) ` set (cdb_rows db)"

inductive chain_run :: "chain_db \<Rightarrow> bool" where
  seeded: "chain_run (seeded_db now trs)"
| insert: "chain_run db \<Longrightarrow> fresh_row r db \<Longrightarrow> chain_run (insert_row jid r db)"
| seal: "chain_run db \<Longrightarrow> ChainPendingTransactions now cutoff n db = Inr (db', k) \<Longrightarrow> chain_run db'"

text \<open>The journal agrees with the live rows.\<close>

definition evidence_ok :: "chain_db \<Rightarrow> bool" where
  "evidence_ok db \<longleftrightarrow> distinct (map (cr_TransactionID \<circ> sr_row) (cdb_rows db)) \<and>
     (\<forall>j \<in> set (cdb_journal db). \<exists>r \<in> set (cdb_rows db).
        cr_TransactionID (sr_row r) = jr_transaction_id j \<and> jr_new_data j = sr_json r \<and> distinct (map fst (sr_json r)))"

lemma evidence_ok_journal:
  assumes "evidence_ok db"
  shows "journal_issues db = []"
proof -
  have "journal_issue db j = None" if j: "j \<in> set (cdb_journal db)" for j
  proof -
    obtain r where r: "r \<in> set (cdb_rows db)" "cr_TransactionID (sr_row r) = jr_transaction_id j"
        "jr_new_data j = sr_json r" "distinct (map fst (sr_json r))"
      and d: "distinct (map (cr_TransactionID \<circ> sr_row) (cdb_rows db))"
      using assms j by (auto simp: evidence_ok_def)
    have only: "x = r" if "x \<in> set (cdb_rows db)" "cr_TransactionID (sr_row x) = jr_transaction_id j" for x
      using d that r(1,2) by (auto simp: distinct_map inj_on_def)
    have "\<not> journal_differs db j r"
      using r(3,4) by (auto simp: journal_differs_def list_ex_iff)
    then have "\<not> list_ex (journal_differs db j) (filter (\<lambda>r. cr_TransactionID (sr_row r) = jr_transaction_id j) (cdb_rows db))"
      using only by (auto simp: list_ex_iff)
    moreover have "filter (\<lambda>r. cr_TransactionID (sr_row r) = jr_transaction_id j) (cdb_rows db) \<noteq> []"
      using r(1,2) by (auto simp: filter_empty_conv)
    ultimately show ?thesis by (auto simp: journal_issue_def split: list.split)
  qed
  then have "List.map_filter (journal_issue db) (cdb_journal db) = []"
    by (auto simp: List.map_filter_def filter_empty_conv)
  then show ?thesis by (simp add: journal_issues_def)
qed

lemma evidence_ok_frame:
  assumes "evidence_ok db" "map sr_row (cdb_rows db') = map sr_row (cdb_rows db)"
    "map sr_json (cdb_rows db') = map sr_json (cdb_rows db)" "cdb_journal db' = cdb_journal db"
  shows "evidence_ok db'"
proof -
  have ids: "map (cr_TransactionID \<circ> sr_row) (cdb_rows db') = map (cr_TransactionID \<circ> sr_row) (cdb_rows db)"
    using arg_cong [OF assms(2), of "map cr_TransactionID"] by simp
  have pairs: "map (\<lambda>r. (sr_row r, sr_json r)) (cdb_rows db') = map (\<lambda>r. (sr_row r, sr_json r)) (cdb_rows db)"
  proof -
    have "map (\<lambda>r. (sr_row r, sr_json r)) rs = zip (map sr_row rs) (map sr_json rs)" for rs :: "stored_row list"
      by (induction rs) auto
    then show ?thesis using assms(2,3) by (simp only:)
  qed
  have "\<exists>x \<in> set (cdb_rows db'). sr_row x = sr_row r \<and> sr_json x = sr_json r" if "r \<in> set (cdb_rows db)" for r
  proof -
    have "(sr_row r, sr_json r) \<in> set (map (\<lambda>r. (sr_row r, sr_json r)) (cdb_rows db))" using that by simp
    then show ?thesis unfolding pairs [symmetric] by auto
  qed
  then show ?thesis using assms(1,4) unfolding evidence_ok_def ids by metis
qed

lemma rows_chain_snoc: "sr_seq r = None \<Longrightarrow> rows_chain (rows @ [r]) = rows_chain rows"
  by (simp add: rows_chain_def)

lemma chain_run_ok:
  assumes "chain_run db"
  shows "db_ok db \<and> evidence_ok db"
  using assms
proof induction
  case (seeded now trs)
  then show ?case
    by (simp add: db_ok_def chain_ok_def seeded_db_def evidence_ok_def rows_chain_def base_walk_def)
next
  case (insert db r jid)
  then show ?case
    by (auto simp: db_ok_def chain_ok_def insert_row_def fresh_row_def evidence_ok_def rows_chain_snoc image_iff)
next
  case (seal db now cutoff n db' k)
  then have "0 < n" by (auto simp: ChainPendingTransactions_def split: if_splits)
  with ChainPendingTransactions_ok [of db n now cutoff] seal show ?case
    using evidence_ok_frame [of db db'] by auto
qed

subsection \<open>Properties\<close>


definition ex_row :: ChainRow where
  "ex_row = \<lparr>cr_HistoricalRate = [], cr_OverdraftLimit = [], cr_QueueAction = [], cr_ExecutionControls = [],
     cr_ScheduledFor = None, cr_ID = ''1'', cr_Precision = ''100'', cr_Rate = [], cr_ParentTransaction = [],
     cr_EffectiveDate = None, cr_TransactionID = ''txn_1'', cr_Source = ''a'', cr_Destination = ''b'', cr_Amount = ''1'',
     cr_PreciseAmount = ''100'', cr_Currency = ''USD'', cr_Status = ''APPLIED'', cr_Reference = ''r'', cr_CreatedAt = 0\<rparr>"

definition ex_stored :: stored_row where
  "ex_stored = \<lparr>sr_id = 1, sr_row = ex_row, sr_seq = None, sr_prev = None, sr_hash = None, sr_version = None,
     sr_json = [(''transaction_id'', JStr ''txn_1'')]\<rparr>"

lemma ex_chain_run: "chain_run (insert_row 1 ex_stored (seeded_db 0 []))"
  by (rule chain_run.insert [OF chain_run.seeded]) (simp add: fresh_row_def ex_stored_def seeded_db_def)

text \<open>The store after the example row was inserted and sealed.\<close>

lemma ex_sealed:
  obtains db where "chain_run db" "ChainPendingTransactions 5 10 3 (insert_row 1 ex_stored (seeded_db 0 [])) = Inr (db, 1)"
    "length (chained_rows db) = 1" "cs_LastSeq (cdb_state db) = 1"
    "cdb_rows db = [seal_row \<lparr>li_id = 1, li_seq = 1, li_prevHash = ChainGenesisHash,
       li_hash = chain_digest (CanonicalChainV3 ChainGenesisHash ex_row)\<rparr> ex_stored]"
    "cdb_checkpoints db = [\<lparr>cp_Sequence = 1, cp_Count = 1,
       cp_HeadHash = chain_digest (CanonicalChainV3 ChainGenesisHash ex_row), cp_CreatedAt = 5\<rparr>]"
proof -
  let ?db = "insert_row 1 ex_stored (seeded_db 0 [])"
  have one: "pending_batch 10 3 ?db = [ex_stored]"
    by (simp add: pending_batch_def insert_row_def seeded_db_def unchained_before_def ex_stored_def ex_row_def)
  have none: "chained_rows ?db = []"
    by (simp add: chained_rows_def insert_row_def seeded_db_def ex_stored_def)
  from ChainPendingTransactions_ok [of ?db 3 5 10] chain_run_ok [OF ex_chain_run]
  obtain db where db: "ChainPendingTransactions 5 10 3 ?db = Inr (db, 1)" "db_ok db" "length (chained_rows db) = 1"
    by (auto simp: one none)
  have "cs_LastSeq (cdb_state db) = 1" using db(2,3) by (simp add: db_ok_def chain_ok_def chained_rows_eq)
  moreover have "cdb_rows db = [seal_row \<lparr>li_id = 1, li_seq = 1, li_prevHash = ChainGenesisHash,
       li_hash = chain_digest (CanonicalChainV3 ChainGenesisHash ex_row)\<rparr> ex_stored]"
    "cdb_checkpoints db = [\<lparr>cp_Sequence = 1, cp_Count = 1,
       cp_HeadHash = chain_digest (CanonicalChainV3 ChainGenesisHash ex_row), cp_CreatedAt = 5\<rparr>]"
    using db(1) one
    by (auto simp: ChainPendingTransactions_def Let_def ComputeChainHashVersion_def chain_digest_def write_link_def
        write_checkpoint_def insert_row_def seeded_db_def ex_stored_def)
  ultimately show thesis using that chain_run.seal [OF ex_chain_run db(1)] db(1,3) by simp
qed




text \<open>
  C11: a checkpoint kept outside the database binds every transaction up to it. If two
  snapshots verify against the same external checkpoint, for instance the store before and
  after an administrator had write access to all of it, and the rows of the first were sealed
  by the chainer (version 3), then the sealed transactions up to the checkpoint have the same
  canonical fields in both, whatever versions the second store claims, unless at some position
  the two different canonical encodings have the same SHA-256 digest.
\<close>

theorem anchored_prefix_binding:
  assumes v: "vr_Verified (VerifyChainSnapshotWithAnchors db [a])" "vr_Verified (VerifyChainSnapshotWithAnchors db' [a])"
    and xs: "xs = take (nat (cp_Sequence a)) (chained_rows db)" and ys: "ys = take (nat (cp_Sequence a)) (chained_rows db')"
    and fits: "\<forall>c \<in> set xs. ct_CanonicalVersion c = 3 \<and> row_fits (ct_Row c)" "\<forall>c \<in> set ys. row_fits (ct_Row c)"
  shows "map (\<lambda>c. chain_fields (ct_Row c)) xs = map (\<lambda>c. chain_fields (ct_Row c)) ys \<or>
    collision chain_digest encode_row ChainGenesisHash (map sealed_row xs) ChainGenesisHash (map sealed_row ys)"
proof -
  have pre: "linked chain_digest encode_row ChainGenesisHash (map sealed_row (take (nat (cp_Sequence a)) (chained_rows d))) (cp_HeadHash a) \<and>
      nat (cp_Sequence a) \<le> length (chained_rows d)"
    if d: "vr_Verified (VerifyChainSnapshotWithAnchors d [a])" for d
  proof -
    from verified_facts(5) [OF d] obtain c where c: "c \<in> set (chained_rows d)" "ct_ChainSeq c = cp_Sequence a"
      "ct_ChainHash c = cp_HeadHash a" by auto
    have "ct_ChainSeq c \<in> set (map ct_ChainSeq (chained_rows d))" using c(1) by simp
    then have "nat (ct_ChainSeq c) \<le> length (chained_rows d)" unfolding verified_facts(1) [OF d] by auto
    with verified_facts(8) [OF d c(1)] c(2,3) show ?thesis by simp
  qed
  have "map (\<lambda>vr. (fst vr, chain_fields (snd vr))) (map sealed_row xs) = map (\<lambda>vr. (fst vr, chain_fields (snd vr))) (map sealed_row ys) \<or>
      collision chain_digest encode_row ChainGenesisHash (map sealed_row xs) ChainGenesisHash (map sealed_row ys)"
  proof (rule seal.linked_binding [where h = "cp_HeadHash a"])
    show "length (map sealed_row xs) = length (map sealed_row ys)"
      using pre [OF v(1)] pre [OF v(2)] by (simp add: xs ys)
  qed (use pre [OF v(1)] pre [OF v(2)] fits head_ok_genesis in \<open>auto simp: xs ys sealed_row_def\<close>)
  then show ?thesis
  proof
    assume "map (\<lambda>vr. (fst vr, chain_fields (snd vr))) (map sealed_row xs) = map (\<lambda>vr. (fst vr, chain_fields (snd vr))) (map sealed_row ys)"
    from arg_cong [OF this, of "map snd"] show ?thesis by (simp add: sealed_row_def comp_def)
  qed simp
qed

lemma ex_row_fits: "row_fits ex_row"
proof -
  have "length (Format_RFC3339Nano 0) = 20" by code_simp
  then show ?thesis by (simp add: row_fits_def chain_fields_def ex_row_def time_text_def)
qed

theorem anchored_prefix_binding_witness:
  "\<exists>db a. vr_Verified (VerifyChainSnapshotWithAnchors db [a]) \<and> cp_Sequence a = 1 \<and> length (chained_rows db) = 1 \<and>
     (map (\<lambda>c. chain_fields (ct_Row c)) (chained_rows db) = map (\<lambda>c. chain_fields (ct_Row c)) (chained_rows db) \<or>
      collision chain_digest encode_row ChainGenesisHash (map sealed_row (chained_rows db)) ChainGenesisHash (map sealed_row (chained_rows db)))"
proof -
  obtain db where db: "chain_run db" "length (chained_rows db) = 1"
    "cdb_rows db = [seal_row \<lparr>li_id = 1, li_seq = 1, li_prevHash = ChainGenesisHash,
       li_hash = chain_digest (CanonicalChainV3 ChainGenesisHash ex_row)\<rparr> ex_stored]"
    "cdb_checkpoints db = [\<lparr>cp_Sequence = 1, cp_Count = 1,
       cp_HeadHash = chain_digest (CanonicalChainV3 ChainGenesisHash ex_row), cp_CreatedAt = 5\<rparr>]"
    using ex_sealed by metis
  define a where "a = hd (cdb_checkpoints db)"
  have a: "cp_Sequence a = 1" "set [a] \<subseteq> set (cdb_checkpoints db)" by (simp_all add: a_def db(4))
  have v: "vr_Verified (VerifyChainSnapshotWithAnchors db [a])"
    using db_ok_verified [of db "[a]"] chain_run_ok [OF db(1)] evidence_ok_journal a(2) by blast
  have rows: "\<forall>c \<in> set (take (nat (cp_Sequence a)) (chained_rows db)). ct_CanonicalVersion c = 3 \<and> row_fits (ct_Row c)"
    by (auto simp: chained_rows_def db(3) seal_row_def ex_stored_def read_chained_def ex_row_fits a(1) dest!: in_set_takeD)
  show ?thesis
    using anchored_prefix_binding [OF v v refl refl rows] rows v a(1) db(2)
    by (intro exI [of _ db] exI [of _ a]) auto
qed

end
