(* ===== verification/Policy.thy ===== *)
theory Policy
  imports Model_Types
begin

section \<open>Spending policies (model/policy.go, package internal/policy)\<close>

text \<open>
  The policy documents of API keys, their validation, the intersection of the policies of a
  delegation chain and the narrowing check. \<open>authority\<close> is the abstract meaning of a policy:
  the set of postings it lets through. The main results are that \<open>Intersect\<close> computes exactly
  the intersection of the authorities, and that \<open>ValidateNarrowing\<close> only accepts a child whose
  authority is contained in its parent's. Calling \<open>Cmp\<close> on a nil \<open>*big.Int\<close> panics; the model
  keeps that branch, and validated documents never take it. Policy versions are database
  counters and are kept as unbounded integers.
\<close>

subsection \<open>Data (model/policy.go)\<close>

record SpendingRule =
  ru_Currency :: string
  ru_Precision :: float64
  ru_MaxTransaction :: string
  ru_DailyLimit :: string
  ru_ApprovalAbove :: string

record KeyPolicy =
  kp_DenyAll :: bool
  kp_InheritedFrom :: "string list"
  kp_APIKeyID :: string
  kp_Version :: int
  kp_Rules :: "SpendingRule list"
  kp_LedgerIDs :: "string list"
  kp_BalanceIDs :: "string list"

record PolicyLeg =
  pl_TransactionID :: string
  pl_Reference :: string
  pl_Source :: string
  pl_Destination :: string
  pl_SourceLedger :: string
  pl_DestinationLedger :: string
  pl_Currency :: string
  pl_Precision :: float64
  pl_Amount :: string

record PolicyAdmission =
  pa_ID :: string
  pa_APIKeyID :: string
  pa_Identity :: string
  pa_Version :: int
  pa_Day :: time
  pa_Decision :: string
  pa_DecidedBy :: string
  pa_Legs :: "PolicyLeg list"

record PolicyBudgetCapacity =
  bc_APIKeyID :: string
  bc_Used :: string
  bc_Limit :: string

record PolicyCapacity =
  pc_Budgets :: "PolicyBudgetCapacity list"
  pc_Currency :: string
  pc_Precision :: float64
  pc_Day :: time
  pc_Used :: string
  pc_Remaining :: "string option"

record Principal =
  pr_APIKeyID :: string
  pr_Master :: bool
  pr_Scopes :: "string list"

subsection \<open>Errors and principals (engine.go, principal.go)\<close>

definition ErrDenied :: go_error where
  "ErrDenied = ErrorString ''spending policy denied transaction''"

definition ErrApprovalRequired :: go_error where
  "ErrApprovalRequired = ErrorString ''transaction requires an independent approval decision''"

definition ErrIdentityConflict :: go_error where
  "ErrIdentityConflict = ErrorString ''policy idempotency identity already has different transaction details''"

text \<open>\<open>fmt.Errorf("%w: <msg>", ErrDenied)\<close>.\<close>

definition denied :: "string \<Rightarrow> go_error" where
  "denied msg = WrapError (Error ErrDenied @ '': '' @ msg) ErrDenied"

definition has :: "Principal \<Rightarrow> string \<Rightarrow> bool" where
  "has p scope = list_ex (\<lambda>s. s = scope) (pr_Scopes p)"

definition CanManagePolicies :: "Principal \<Rightarrow> bool" where
  "CanManagePolicies p = (pr_Master p \<or> has p ''policies:write'')"

definition CanApprove :: "Principal \<Rightarrow> bool" where
  "CanApprove p = (pr_Master p \<or> has p ''approvals:write'')"

subsection \<open>Validation (validation.go)\<close>

definition Integer :: "string \<Rightarrow> go_error + int" where
  "Integer s = (case SetString s of
       Some n \<Rightarrow> if n < 0 \<or> show_int n \<noteq> s
                 then Inl (ErrorString ''policy amounts must be canonical nonnegative integers'') else Inr n
     | None \<Rightarrow> Inl (ErrorString ''policy amounts must be canonical nonnegative integers''))"

definition RuleKey :: "string \<Rightarrow> float64 \<Rightarrow> string" where
  "RuleKey currency precision = currency @ ''/'' @ sprintf_f0 precision"

definition rule_key :: "SpendingRule \<Rightarrow> string" where
  "rule_key r = RuleKey (ru_Currency r) (ru_Precision r)"

definition leg_key :: "PolicyLeg \<Rightarrow> string" where
  "leg_key l = RuleKey (pl_Currency l) (pl_Precision l)"

definition Allowed :: "string list \<Rightarrow> string \<Rightarrow> bool" where
  "Allowed ids i = (ids = [] \<or> list_ex (\<lambda>v. v = i) ids)"

definition limit_error :: "string \<Rightarrow> go_error option" where
  "limit_error s = (if s = [] then None else case Integer s of Inl e \<Rightarrow> Some e | Inr n \<Rightarrow> None)"

fun validate_rules :: "string list \<Rightarrow> SpendingRule list \<Rightarrow> go_error option" where
  "validate_rules seen [] = None"
| "validate_rules seen (r # rs) =
     (if ru_Currency r = [] \<or> ru_Currency r \<noteq> ToUpper (ru_Currency r) \<or> IsNaN (ru_Precision r) \<or>
         IsInf (ru_Precision r) \<or> f64_less (ru_Precision r) (Fin 1) \<or>
         \<not> f64_eq (Trunc (ru_Precision r)) (ru_Precision r)
      then Some (ErrorString ''policy requires currency and integer precision'')
      else if rule_key r \<in> set seen then Some (ErrorString ''duplicate policy currency rule'')
      else case first_error [limit_error (ru_MaxTransaction r), limit_error (ru_DailyLimit r), limit_error (ru_ApprovalAbove r)] of
        Some e \<Rightarrow> Some e
      | None \<Rightarrow> validate_rules (rule_key r # seen) rs)"

definition Validate :: "KeyPolicy \<Rightarrow> go_error option" where
  "Validate p =
     (if kp_Rules p = [] then Some (ErrorString ''policy requires at least one currency rule'')
      else validate_rules [] (kp_Rules p))"

subsection \<open>Inheritance (inheritance.go)\<close>

text \<open>\<open>Integer\<close> returns a nil pointer with its error; \<open>Cmp\<close> compares equal pointers first and
  dereferences both otherwise.\<close>

definition int_ptr :: "string \<Rightarrow> int option" where
  "int_ptr s = (case Integer s of Inr n \<Rightarrow> Some n | Inl e \<Rightarrow> None)"

fun big_Cmp :: "int option \<Rightarrow> int option \<Rightarrow> go_error + int" where
  "big_Cmp (Some x) (Some y) = Inr (if x < y then -1 else if x = y then 0 else 1)"
| "big_Cmp None None = Inr 0"
| "big_Cmp _ _ = Inl (GoPanic ''nil pointer dereference'')"

definition minimum :: "string \<Rightarrow> string \<Rightarrow> go_error + string" where
  "minimum a b =
     (if a = [] then Inr b
      else if b = [] then Inr a
      else bindE (big_Cmp (int_ptr a) (int_ptr b)) (\<lambda>c. Inr (if c \<le> 0 then a else b)))"

definition intersectIDs :: "string list \<Rightarrow> string list \<Rightarrow> string list \<times> bool" where
  "intersectIDs a b =
     (if a = [] then (b, False)
      else if b = [] then (a, False)
      else (let out = filter (Allowed b) a in (out, out = [])))"

text \<open>The loop over \<open>p.Rules\<close> for one rule \<open>a\<close> of the result, which it narrows in place.\<close>

fun meet_rules :: "SpendingRule \<Rightarrow> SpendingRule list \<Rightarrow> go_error + SpendingRule list" where
  "meet_rules a [] = Inr []"
| "meet_rules a (b # bs) =
     (if rule_key a \<noteq> rule_key b then meet_rules a bs
      else bindE (minimum (ru_MaxTransaction a) (ru_MaxTransaction b)) (\<lambda>mx.
           bindE (minimum (ru_DailyLimit a) (ru_DailyLimit b)) (\<lambda>dl.
           bindE (minimum (ru_ApprovalAbove a) (ru_ApprovalAbove b)) (\<lambda>ap.
             let a' = a\<lparr>ru_MaxTransaction := mx, ru_DailyLimit := dl, ru_ApprovalAbove := ap\<rparr>
             in bindE (meet_rules a' bs) (\<lambda>rs. Inr (a' # rs))))))"

fun intersect_rules :: "SpendingRule list \<Rightarrow> SpendingRule list \<Rightarrow> go_error + SpendingRule list" where
  "intersect_rules [] bs = Inr []"
| "intersect_rules (a # as) bs =
     bindE (meet_rules a bs) (\<lambda>rs. bindE (intersect_rules as bs) (\<lambda>rest. Inr (rs @ rest)))"

definition tally :: "string \<Rightarrow> KeyPolicy \<Rightarrow> KeyPolicy \<Rightarrow> KeyPolicy" where
  "tally key p res = res\<lparr>
     kp_Version := kp_Version res + kp_Version p,
     kp_InheritedFrom := kp_InheritedFrom res @ (if kp_APIKeyID p \<noteq> key then [kp_APIKeyID p] else []),
     kp_DenyAll := kp_DenyAll res \<or> kp_DenyAll p\<rparr>"

definition narrow :: "KeyPolicy \<Rightarrow> KeyPolicy \<Rightarrow> go_error + KeyPolicy" where
  "narrow p res =
     bindE (intersect_rules (kp_Rules res) (kp_Rules p)) (\<lambda>rules.
       let (ls, empty1) = intersectIDs (kp_LedgerIDs res) (kp_LedgerIDs p);
           (bs, empty2) = intersectIDs (kp_BalanceIDs res) (kp_BalanceIDs p)
       in Inr (res\<lparr>kp_Rules := rules, kp_LedgerIDs := ls, kp_BalanceIDs := bs,
                  kp_DenyAll := kp_DenyAll res \<or> empty1 \<or> empty2\<rparr>))"

fun intersect_loop :: "string \<Rightarrow> KeyPolicy list \<Rightarrow> KeyPolicy \<Rightarrow> go_error + KeyPolicy" where
  "intersect_loop key [] res = Inr res"
| "intersect_loop key (p # ps) res = bindE (narrow p (tally key p res)) (intersect_loop key ps)"

fun Intersect :: "string \<Rightarrow> KeyPolicy list \<Rightarrow> go_error + KeyPolicy option" where
  "Intersect key [] = Inr None"
| "Intersect key (p # ps) =
     bindE (intersect_loop key ps (tally key p (p\<lparr>kp_APIKeyID := key, kp_Version := 0, kp_InheritedFrom := []\<rparr>)))
       (\<lambda>res. Inr (Some (if kp_Rules res = [] then res\<lparr>kp_DenyAll := True\<rparr> else res)))"

fun narrowing_ids :: "(string list \<times> string list) list \<Rightarrow> go_error option" where
  "narrowing_ids [] = None"
| "narrowing_ids ((child, parent) # rest) =
     (if parent = [] then narrowing_ids rest
      else if child = [] then Some (denied ''child allowlist must narrow its ancestors'')
      else if list_ex (\<lambda>i. \<not> Allowed parent i) child then Some (denied ''child allowlist exceeds its ancestors'')
      else narrowing_ids rest)"

fun narrowing_limits :: "(string \<times> string) list \<Rightarrow> go_error option" where
  "narrowing_limits [] = None"
| "narrowing_limits ((child, parent) # rest) =
     (if parent = [] then narrowing_limits rest
      else if child = [] then Some (denied ''child limit exceeds its ancestors'')
      else case minimum child parent of
        Inl e \<Rightarrow> Some e
      | Inr m \<Rightarrow> if m \<noteq> child then Some (denied ''child limit exceeds its ancestors'') else narrowing_limits rest)"

fun narrowing_rules :: "SpendingRule list \<Rightarrow> SpendingRule list \<Rightarrow> go_error option" where
  "narrowing_rules [] parent = None"
| "narrowing_rules (c # cs) parent =
     (case find (\<lambda>p. rule_key c = rule_key p) parent of
        None \<Rightarrow> Some (denied ''child currency exceeds its ancestors'')
      | Some a \<Rightarrow>
          (case narrowing_limits [(ru_MaxTransaction c, ru_MaxTransaction a), (ru_DailyLimit c, ru_DailyLimit a),
                                  (ru_ApprovalAbove c, ru_ApprovalAbove a)] of
             Some e \<Rightarrow> Some e
           | None \<Rightarrow> narrowing_rules cs parent))"

definition ValidateNarrowing :: "KeyPolicy \<Rightarrow> KeyPolicy option \<Rightarrow> go_error option" where
  "ValidateNarrowing child parent = (case parent of
       None \<Rightarrow> None
     | Some p \<Rightarrow>
         if kp_DenyAll child then None
         else if kp_DenyAll p then Some (denied ''ancestor denies all spending'')
         else case narrowing_ids [(kp_LedgerIDs child, kp_LedgerIDs p), (kp_BalanceIDs child, kp_BalanceIDs p)] of
           Some e \<Rightarrow> Some e
         | None \<Rightarrow> narrowing_rules (kp_Rules child) (kp_Rules p))"

text \<open>\<open>Apply\<close> of \<open>engine.go\<close> marks a transaction with its admission.\<close>

definition Apply :: "PolicyAdmission option \<Rightarrow> Transaction \<Rightarrow> Transaction" where
  "Apply a t = (case a of
       None \<Rightarrow> t
     | Some adm \<Rightarrow>
         let md = (case tx_MetaData t of None \<Rightarrow> [] | Some m \<Rightarrow> m);
             md1 = AList.update ''policy_approval'' (JStr (pa_Decision adm))
                     (AList.update ''policy_admission_id'' (JStr (pa_ID adm)) md)
         in if pa_Decision adm \<noteq> ''not_required''
            then t\<lparr>tx_MetaData := Some (AList.update ''inflight'' (JBool True) md1), tx_Inflight := True,
                   tx_InflightCommitDate := zero_time\<rparr>
            else t\<lparr>tx_MetaData := Some md1\<rparr>)"

subsection \<open>What a policy authorises\<close>

text \<open>
  \<open>permits p l n\<close>: under policy \<open>p\<close> a leg between these balances and ledgers may be part of a
  request whose total in its currency is \<open>n\<close>. \<open>needs_approval p l n\<close>: that total must be
  decided by an approver.
\<close>

definition under :: "string \<Rightarrow> int \<Rightarrow> bool" where
  "under limit n = (limit = [] \<or> (case Integer limit of Inr m \<Rightarrow> n \<le> m | Inl e \<Rightarrow> False))"

definition permits :: "KeyPolicy \<Rightarrow> PolicyLeg \<Rightarrow> int \<Rightarrow> bool" where
  "permits p l n =
     (\<not> kp_DenyAll p \<and>
      Allowed (kp_BalanceIDs p) (pl_Source l) \<and> Allowed (kp_BalanceIDs p) (pl_Destination l) \<and>
      Allowed (kp_LedgerIDs p) (pl_SourceLedger l) \<and> Allowed (kp_LedgerIDs p) (pl_DestinationLedger l) \<and>
      (\<exists>r \<in> set (kp_Rules p). rule_key r = leg_key l \<and> under (ru_MaxTransaction r) n))"

definition needs_approval :: "KeyPolicy \<Rightarrow> PolicyLeg \<Rightarrow> int \<Rightarrow> bool" where
  "needs_approval p l n = (\<exists>r \<in> set (kp_Rules p). rule_key r = leg_key l \<and> \<not> under (ru_ApprovalAbove r) n)"

definition authority :: "KeyPolicy \<Rightarrow> (PolicyLeg \<times> int) set" where
  "authority p = {(l, n). permits p l n}"

lemma Allowed_iff: "Allowed ids i \<longleftrightarrow> ids = [] \<or> i \<in> set ids"
  by (auto simp: Allowed_def list_ex_iff)

lemma Integer_Inr: "Integer s = Inr n \<longleftrightarrow> 0 \<le> n \<and> s = show_int n"
  by (auto simp: Integer_def split: option.splits if_splits)

lemma Integer_show_int: "0 \<le> n \<Longrightarrow> Integer (show_int n) = Inr n"
  by (simp add: Integer_Inr)

subsection \<open>Limits\<close>

text \<open>A limit text is canonical when it is absent or a nonnegative integer's text.\<close>

definition limit_ok :: "string \<Rightarrow> bool" where
  "limit_ok s = (s = [] \<or> (\<exists>n \<ge> 0. s = show_int n))"

definition min_limit :: "string \<Rightarrow> string \<Rightarrow> string" where
  "min_limit a b = (case minimum a b of Inr m \<Rightarrow> m | Inl e \<Rightarrow> [])"

lemma limit_error_None: "limit_error s = None \<longleftrightarrow> limit_ok s"
proof (cases "Integer s")
  case (Inr n)
  then show ?thesis by (auto simp: limit_error_def limit_ok_def Integer_Inr Integer_show_int)
next
  case (Inl e)
  then have "s \<noteq> show_int n" if "0 \<le> n" for n using that by (auto simp: Integer_show_int)
  with Inl show ?thesis by (auto simp: limit_error_def limit_ok_def)
qed

lemma minimum_show_int:
  "0 \<le> x \<Longrightarrow> 0 \<le> y \<Longrightarrow> minimum (show_int x) (show_int y) = Inr (show_int (min x y))"
  by (simp add: minimum_def int_ptr_def Integer_show_int)

lemma minimum_Nil: "minimum [] b = Inr b" "minimum a [] = Inr a"
  by (simp_all add: minimum_def)

lemma minimum_ok:
  assumes "limit_ok a" "limit_ok b"
  shows "minimum a b = Inr (min_limit a b)" and "limit_ok (min_limit a b)"
    and "under (min_limit a b) n \<longleftrightarrow> under a n \<and> under b n"
    and "min_limit a b = a \<or> min_limit a b = b"
proof -
  consider "a = []" | "a \<noteq> []" "b = []"
    | x y where "0 \<le> x" "0 \<le> y" "a = show_int x" "b = show_int y" using assms by (auto simp: limit_ok_def)
  then show "minimum a b = Inr (min_limit a b)" "limit_ok (min_limit a b)"
    "under (min_limit a b) n \<longleftrightarrow> under a n \<and> under b n" "min_limit a b = a \<or> min_limit a b = b"
    by cases (use assms in \<open>auto simp: min_limit_def minimum_Nil minimum_show_int limit_ok_def under_def Integer_show_int min_def split: if_splits\<close>)
qed

definition limits_ok :: "SpendingRule \<Rightarrow> bool" where
  "limits_ok r = (limit_ok (ru_MaxTransaction r) \<and> limit_ok (ru_DailyLimit r) \<and> limit_ok (ru_ApprovalAbove r))"

definition rules_ok :: "SpendingRule list \<Rightarrow> bool" where
  "rules_ok rs = (distinct (map rule_key rs) \<and> list_all limits_ok rs)"

definition meet :: "SpendingRule \<Rightarrow> SpendingRule \<Rightarrow> SpendingRule" where
  "meet a b = a\<lparr>ru_MaxTransaction := min_limit (ru_MaxTransaction a) (ru_MaxTransaction b),
                ru_DailyLimit := min_limit (ru_DailyLimit a) (ru_DailyLimit b),
                ru_ApprovalAbove := min_limit (ru_ApprovalAbove a) (ru_ApprovalAbove b)\<rparr>"

lemma meet_sel [simp]:
  "ru_Currency (meet a b) = ru_Currency a"
  "ru_Precision (meet a b) = ru_Precision a"
  "ru_MaxTransaction (meet a b) = min_limit (ru_MaxTransaction a) (ru_MaxTransaction b)"
  "ru_DailyLimit (meet a b) = min_limit (ru_DailyLimit a) (ru_DailyLimit b)"
  "ru_ApprovalAbove (meet a b) = min_limit (ru_ApprovalAbove a) (ru_ApprovalAbove b)"
  "rule_key (meet a b) = rule_key a"
  by (simp_all add: meet_def rule_key_def)

lemma limits_ok_meet: "limits_ok a \<Longrightarrow> limits_ok b \<Longrightarrow> limits_ok (meet a b)"
  by (simp add: limits_ok_def minimum_ok)

lemma validate_rules_None:
  "validate_rules seen rs = None \<Longrightarrow>
   distinct (map rule_key rs) \<and> list_all limits_ok rs \<and> set seen \<inter> rule_key ` set rs = {}"
proof (induction seen rs rule: validate_rules.induct)
  case (2 seen r rs)
  then have lim: "first_error [limit_error (ru_MaxTransaction r), limit_error (ru_DailyLimit r),
      limit_error (ru_ApprovalAbove r)] = None" and new: "rule_key r \<notin> set seen"
    and rest: "validate_rules (rule_key r # seen) rs = None"
    by (auto split: if_splits option.splits)
  from lim have "limits_ok r" by (simp add: first_error_None_iff limit_error_None limits_ok_def)
  moreover have "distinct (map rule_key rs) \<and> list_all limits_ok rs \<and> set (rule_key r # seen) \<inter> rule_key ` set rs = {}"
    using 2 lim new rest by (auto split: if_splits option.splits)
  ultimately show ?case using new by auto
qed simp

lemma Validate_rules_ok: "Validate p = None \<Longrightarrow> rules_ok (kp_Rules p)"
  using validate_rules_None [of "[]"] by (auto simp: Validate_def rules_ok_def split: if_splits)

subsection \<open>The intersection of rules\<close>

lemma meet_rules_skip: "rule_key a \<notin> rule_key ` set bs \<Longrightarrow> meet_rules a bs = Inr []"
  by (induction bs) auto

lemma meet_rules_step:
  "limits_ok a \<Longrightarrow> limits_ok b \<Longrightarrow> rule_key a = rule_key b \<Longrightarrow>
   meet_rules a (b # bs) = bindE (meet_rules (meet a b) bs) (\<lambda>rs. Inr (meet a b # rs))"
  by (simp add: limits_ok_def minimum_ok meet_def Let_def)

lemma meet_rules_ok:
  assumes "limits_ok a" "rules_ok bs"
  shows "meet_rules a bs = Inr (map (meet a) (filter (\<lambda>b. rule_key b = rule_key a) bs))"
  using assms(2)
proof (induction bs)
  case (Cons b bs)
  from Cons.prems have bs: "rules_ok bs" and b: "limits_ok b" "rule_key b \<notin> rule_key ` set bs"
    by (simp_all add: rules_ok_def)
  note IH = Cons.IH [OF bs]
  show ?case
  proof (cases "rule_key a = rule_key b")
    case True
    with b(2) have none: "filter (\<lambda>b. rule_key b = rule_key a) bs = []"
      by (auto simp: filter_empty_conv image_iff)
    from True b(2) have "meet_rules (meet a b) bs = Inr []" by (intro meet_rules_skip) simp
    with meet_rules_step [OF assms(1) b(1) True] none show ?thesis by (simp add: True del: meet_rules.simps)
  qed (use IH in simp)
qed simp

lemma intersect_rules_ok:
  assumes "list_all limits_ok as" "rules_ok bs"
  shows "intersect_rules as bs =
    Inr (concat (map (\<lambda>a. map (meet a) (filter (\<lambda>b. rule_key b = rule_key a) bs)) as))"
  using assms(1) by (induction as) (simp_all add: meet_rules_ok assms(2))

lemma intersect_rules_meaning:
  assumes "list_all limits_ok as" "rules_ok bs"
  obtains rs where "intersect_rules as bs = Inr rs" "list_all limits_ok rs"
    "\<And>k n. (\<exists>r \<in> set rs. rule_key r = k \<and> under (ru_MaxTransaction r) n) \<longleftrightarrow>
       (\<exists>a \<in> set as. rule_key a = k \<and> under (ru_MaxTransaction a) n) \<and>
       (\<exists>b \<in> set bs. rule_key b = k \<and> under (ru_MaxTransaction b) n)"
    "\<And>k n. (\<exists>r \<in> set rs. rule_key r = k \<and> \<not> under (ru_ApprovalAbove r) n) \<longleftrightarrow>
       (\<exists>a \<in> set as. \<exists>b \<in> set bs. rule_key a = k \<and> rule_key b = k \<and>
          (\<not> under (ru_ApprovalAbove a) n \<or> \<not> under (ru_ApprovalAbove b) n))"
proof
  let ?rs = "concat (map (\<lambda>a. map (meet a) (filter (\<lambda>b. rule_key b = rule_key a) bs)) as)"
  show "intersect_rules as bs = Inr ?rs" by (rule intersect_rules_ok [OF assms])
  have ok: "limits_ok a" "limits_ok b" if "a \<in> set as" "b \<in> set bs" for a b
    using that assms by (auto simp: list_all_iff rules_ok_def)
  have rs: "r \<in> set ?rs \<longleftrightarrow> (\<exists>a \<in> set as. \<exists>b \<in> set bs. rule_key b = rule_key a \<and> r = meet a b)" for r
    by (auto simp: image_iff simp del: meet_sel)
  have ex: "(\<exists>r \<in> set ?rs. P r) \<longleftrightarrow> (\<exists>a \<in> set as. \<exists>b \<in> set bs. rule_key b = rule_key a \<and> P (meet a b))" for P
    unfolding Bex_def rs by blast
  show "list_all limits_ok ?rs"
    unfolding list_all_iff using ok limits_ok_meet by (auto simp: rs simp del: set_concat)
  have wmax: "under (ru_MaxTransaction (meet a b)) n \<longleftrightarrow> under (ru_MaxTransaction a) n \<and> under (ru_MaxTransaction b) n"
    and wapp: "under (ru_ApprovalAbove (meet a b)) n \<longleftrightarrow> under (ru_ApprovalAbove a) n \<and> under (ru_ApprovalAbove b) n"
    and key: "rule_key (meet a b) = rule_key a"
    if "a \<in> set as" "b \<in> set bs" for a b n using ok [OF that] by (simp_all add: limits_ok_def minimum_ok)
  show "(\<exists>r \<in> set ?rs. rule_key r = k \<and> under (ru_MaxTransaction r) n) \<longleftrightarrow>
       (\<exists>a \<in> set as. rule_key a = k \<and> under (ru_MaxTransaction a) n) \<and>
       (\<exists>b \<in> set bs. rule_key b = k \<and> under (ru_MaxTransaction b) n)" for k n
  proof -
    have "(\<exists>r \<in> set ?rs. rule_key r = k \<and> under (ru_MaxTransaction r) n) \<longleftrightarrow>
      (\<exists>a \<in> set as. \<exists>b \<in> set bs. (rule_key a = k \<and> under (ru_MaxTransaction a) n) \<and>
         (rule_key b = k \<and> under (ru_MaxTransaction b) n))"
      unfolding ex by (intro bex_cong refl) (simp only: wmax key, blast)
    then show ?thesis by blast
  qed
  show "(\<exists>r \<in> set ?rs. rule_key r = k \<and> \<not> under (ru_ApprovalAbove r) n) \<longleftrightarrow>
       (\<exists>a \<in> set as. \<exists>b \<in> set bs. rule_key a = k \<and> rule_key b = k \<and>
          (\<not> under (ru_ApprovalAbove a) n \<or> \<not> under (ru_ApprovalAbove b) n))" for k n
    unfolding ex by (intro bex_cong refl) (simp only: wapp key, blast)
qed

subsection \<open>The intersection of policies\<close>

lemma intersectIDs_meaning:
  "\<not> snd (intersectIDs a b) \<Longrightarrow> Allowed (fst (intersectIDs a b)) i \<longleftrightarrow> Allowed a i \<and> Allowed b i"
  "snd (intersectIDs a b) \<Longrightarrow> \<not> (Allowed a i \<and> Allowed b i)"
  by (auto simp: intersectIDs_def Let_def Allowed_iff filter_empty_conv split: if_splits)

lemma permits_tally: "permits (tally key p res) l n \<longleftrightarrow> permits res l n \<and> \<not> kp_DenyAll p"
  by (auto simp: permits_def tally_def)

lemma needs_approval_tally [simp]: "needs_approval (tally key p res) l n = needs_approval res l n"
  by (simp add: needs_approval_def tally_def)

lemma permits_key: "permits p l n \<Longrightarrow> leg_key l \<in> rule_key ` set (kp_Rules p)"
  unfolding permits_def by (metis imageI)

lemma narrow_meaning:
  assumes "list_all limits_ok (kp_Rules res)" "rules_ok (kp_Rules p)"
  obtains q where "narrow p (tally key p res) = Inr q" "list_all limits_ok (kp_Rules q)"
    "\<And>l n. permits q l n \<longleftrightarrow> permits res l n \<and> permits p l n"
    "\<And>l n. permits q l n \<Longrightarrow> needs_approval q l n \<longleftrightarrow> needs_approval res l n \<or> needs_approval p l n"
proof -
  obtain rs where rs: "intersect_rules (kp_Rules res) (kp_Rules p) = Inr rs" "list_all limits_ok rs"
    and mx: "\<And>k n. (\<exists>r \<in> set rs. rule_key r = k \<and> under (ru_MaxTransaction r) n) \<longleftrightarrow>
       (\<exists>a \<in> set (kp_Rules res). rule_key a = k \<and> under (ru_MaxTransaction a) n) \<and>
       (\<exists>b \<in> set (kp_Rules p). rule_key b = k \<and> under (ru_MaxTransaction b) n)"
    and ap: "\<And>k n. (\<exists>r \<in> set rs. rule_key r = k \<and> \<not> under (ru_ApprovalAbove r) n) \<longleftrightarrow>
       (\<exists>a \<in> set (kp_Rules res). \<exists>b \<in> set (kp_Rules p). rule_key a = k \<and> rule_key b = k \<and>
          (\<not> under (ru_ApprovalAbove a) n \<or> \<not> under (ru_ApprovalAbove b) n))"
    by (rule intersect_rules_meaning [OF assms]) (rule that)
  define q where "q = (tally key p res)\<lparr>kp_Rules := rs,
    kp_LedgerIDs := fst (intersectIDs (kp_LedgerIDs res) (kp_LedgerIDs p)),
    kp_BalanceIDs := fst (intersectIDs (kp_BalanceIDs res) (kp_BalanceIDs p)),
    kp_DenyAll := (kp_DenyAll res \<or> kp_DenyAll p) \<or> snd (intersectIDs (kp_LedgerIDs res) (kp_LedgerIDs p)) \<or>
      snd (intersectIDs (kp_BalanceIDs res) (kp_BalanceIDs p))\<rparr>"
  have sel: "kp_Rules q = rs" "kp_LedgerIDs q = fst (intersectIDs (kp_LedgerIDs res) (kp_LedgerIDs p))"
    "kp_BalanceIDs q = fst (intersectIDs (kp_BalanceIDs res) (kp_BalanceIDs p))"
    "kp_DenyAll q \<longleftrightarrow> (kp_DenyAll res \<or> kp_DenyAll p) \<or> snd (intersectIDs (kp_LedgerIDs res) (kp_LedgerIDs p)) \<or>
      snd (intersectIDs (kp_BalanceIDs res) (kp_BalanceIDs p))" by (simp_all add: q_def)
  have run: "narrow p (tally key p res) = Inr q"
    by (simp add: narrow_def q_def rs(1) Let_def split_beta tally_def)
  have perm: "permits q l n \<longleftrightarrow> permits res l n \<and> permits p l n" for l n
    unfolding permits_def sel mx using intersectIDs_meaning by blast
  have app: "needs_approval q l n \<longleftrightarrow> needs_approval res l n \<or> needs_approval p l n" if "permits q l n" for l n
  proof -
    from that perm permits_key have "leg_key l \<in> rule_key ` set (kp_Rules res)" "leg_key l \<in> rule_key ` set (kp_Rules p)" by blast+
    then obtain a b where "a \<in> set (kp_Rules res)" "rule_key a = leg_key l" "b \<in> set (kp_Rules p)" "rule_key b = leg_key l" by auto
    then show ?thesis unfolding needs_approval_def sel ap by blast
  qed
  show ?thesis by (rule that [OF run]) (use rs(2) perm app in \<open>auto simp: sel\<close>)
qed

lemma intersect_loop_meaning:
  assumes "list_all limits_ok (kp_Rules res)" "\<forall>p \<in> set ps. rules_ok (kp_Rules p)"
  shows "\<exists>q. intersect_loop key ps res = Inr q \<and> list_all limits_ok (kp_Rules q) \<and>
    (\<forall>l n. permits q l n \<longleftrightarrow> permits res l n \<and> (\<forall>p \<in> set ps. permits p l n)) \<and>
    (\<forall>l n. permits q l n \<longrightarrow> (needs_approval q l n \<longleftrightarrow> needs_approval res l n \<or> (\<exists>p \<in> set ps. needs_approval p l n)))"
  using assms
proof (induction ps arbitrary: res)
  case (Cons p ps)
  from Cons.prems have "rules_ok (kp_Rules p)" by simp
  from narrow_meaning [OF Cons.prems(1) this] obtain q where q: "narrow p (tally key p res) = Inr q"
    "list_all limits_ok (kp_Rules q)" "\<And>l n. permits q l n \<longleftrightarrow> permits res l n \<and> permits p l n"
    "\<And>l n. permits q l n \<Longrightarrow> needs_approval q l n \<longleftrightarrow> needs_approval res l n \<or> needs_approval p l n"
    by blast
  from Cons.IH [OF q(2)] Cons.prems(2) obtain q' where "intersect_loop key ps q = Inr q'" "list_all limits_ok (kp_Rules q')"
    "\<forall>l n. permits q' l n \<longleftrightarrow> permits q l n \<and> (\<forall>p \<in> set ps. permits p l n)"
    "\<forall>l n. permits q' l n \<longrightarrow> (needs_approval q' l n \<longleftrightarrow> needs_approval q l n \<or> (\<exists>p \<in> set ps. needs_approval p l n))"
    by auto
  with q show ?case by (intro exI [of _ q']) auto
qed simp

lemma Intersect_meaning:
  assumes "ps \<noteq> []" "\<forall>p \<in> set ps. rules_ok (kp_Rules p)"
  shows "\<exists>q. Intersect key ps = Inr (Some q) \<and> list_all limits_ok (kp_Rules q) \<and> authority q = (\<Inter>p \<in> set ps. authority p) \<and>
    (\<forall>l n. permits q l n \<longrightarrow> (needs_approval q l n \<longleftrightarrow> (\<exists>p \<in> set ps. needs_approval p l n)))"
proof -
  from assms(1) obtain p ps' where ps: "ps = p # ps'" by (cases ps) auto
  define r0 where "r0 = tally key p (p\<lparr>kp_APIKeyID := key, kp_Version := 0, kp_InheritedFrom := []\<rparr>)"
  have r0: "permits r0 l n = permits p l n" "needs_approval r0 l n = needs_approval p l n" "kp_Rules r0 = kp_Rules p" for l n
    by (auto simp: r0_def permits_def needs_approval_def tally_def)
  from assms(2) ps have "list_all limits_ok (kp_Rules r0)" by (simp add: r0 rules_ok_def)
  from intersect_loop_meaning [OF this, of ps' key] assms(2) ps obtain q where
    q: "intersect_loop key ps' r0 = Inr q" "list_all limits_ok (kp_Rules q)" "\<forall>l n. permits q l n \<longleftrightarrow> permits p l n \<and> (\<forall>p \<in> set ps'. permits p l n)"
    "\<forall>l n. permits q l n \<longrightarrow> (needs_approval q l n \<longleftrightarrow> needs_approval p l n \<or> (\<exists>p \<in> set ps'. needs_approval p l n))"
    by (auto simp: r0)
  define q' where "q' = (if kp_Rules q = [] then q\<lparr>kp_DenyAll := True\<rparr> else q)"
  have q': "permits q' l n = permits q l n" "needs_approval q' l n = needs_approval q l n" for l n
    by (auto simp: q'_def permits_def needs_approval_def)
  have "Intersect key ps = Inr (Some q')" by (simp add: ps q(1) q'_def flip: r0_def)
  moreover have "authority q' = (\<Inter>p \<in> set ps. authority p)" using q(3) by (auto simp: authority_def ps q')
  moreover have "list_all limits_ok (kp_Rules q')" using q(2) by (simp add: q'_def)
  ultimately show ?thesis using q(4) by (intro exI [of _ q']) (simp add: ps q')
qed

subsection \<open>Narrowing\<close>

lemma narrowing_ids_None:
  "narrowing_ids ps = None \<Longrightarrow> (c, p) \<in> set ps \<Longrightarrow> Allowed c i \<Longrightarrow> Allowed p i"
  by (induction ps rule: narrowing_ids.induct) (auto simp: Allowed_iff list_ex_iff split: if_splits)

lemma narrowing_limits_None:
  "narrowing_limits ps = None \<Longrightarrow> (c, p) \<in> set ps \<Longrightarrow> limit_ok c \<Longrightarrow> limit_ok p \<Longrightarrow> under c n \<Longrightarrow> under p n"
proof (induction ps rule: narrowing_limits.induct)
  case (2 child parent rest)
  show ?case
  proof (cases "(c, p) = (child, parent) \<and> parent \<noteq> []")
    case True
    with "2.prems"(1) have "minimum c p = Inr c" by (auto split: if_splits sum.splits)
    with minimum_ok(1) [OF "2.prems"(3,4)] have "min_limit c p = c" by simp
    with minimum_ok(3) [OF "2.prems"(3,4), of n] "2.prems"(5) show ?thesis by metis
  next
    case False
    then have "p = [] \<or> (c, p) \<in> set rest" using "2.prems"(2) by auto
    moreover have "under p n" if "(c, p) \<in> set rest"
      using that "2.IH" "2.prems" by (auto split: if_splits sum.splits)
    ultimately show ?thesis by (auto simp: under_def)
  qed
qed simp

lemma narrowing_rules_None:
  assumes "narrowing_rules cs ps = None" "c \<in> set cs" "list_all limits_ok cs" "list_all limits_ok ps"
  obtains a where "a \<in> set ps" "rule_key a = rule_key c"
    "\<And>n. under (ru_MaxTransaction c) n \<Longrightarrow> under (ru_MaxTransaction a) n"
    "\<And>n. under (ru_DailyLimit c) n \<Longrightarrow> under (ru_DailyLimit a) n"
    "\<And>n. under (ru_ApprovalAbove c) n \<Longrightarrow> under (ru_ApprovalAbove a) n"
proof -
  have "\<exists>a. find (\<lambda>p. rule_key c = rule_key p) ps = Some a \<and> narrowing_limits [(ru_MaxTransaction c, ru_MaxTransaction a),
      (ru_DailyLimit c, ru_DailyLimit a), (ru_ApprovalAbove c, ru_ApprovalAbove a)] = None"
    using assms(1,2) by (induction cs) (auto split: option.splits simp del: narrowing_limits.simps)
  then obtain a where a: "find (\<lambda>p. rule_key c = rule_key p) ps = Some a"
    "narrowing_limits [(ru_MaxTransaction c, ru_MaxTransaction a), (ru_DailyLimit c, ru_DailyLimit a),
       (ru_ApprovalAbove c, ru_ApprovalAbove a)] = None" by blast
  from a(1) have mem: "a \<in> set ps" "rule_key a = rule_key c" by (auto simp: find_Some_iff)
  with assms have "limits_ok a" "limits_ok c" by (auto simp: list_all_iff)
  then have lim: "limit_ok (ru_MaxTransaction c)" "limit_ok (ru_MaxTransaction a)" "limit_ok (ru_DailyLimit c)"
    "limit_ok (ru_DailyLimit a)" "limit_ok (ru_ApprovalAbove c)" "limit_ok (ru_ApprovalAbove a)" by (simp_all add: limits_ok_def)
  show ?thesis
  proof (rule that [OF mem])
    show "under (ru_MaxTransaction c) n \<Longrightarrow> under (ru_MaxTransaction a) n" for n
      by (rule narrowing_limits_None [OF a(2) _ lim(1,2)]) simp_all
    show "under (ru_DailyLimit c) n \<Longrightarrow> under (ru_DailyLimit a) n" for n
      by (rule narrowing_limits_None [OF a(2) _ lim(3,4)]) simp_all
    show "under (ru_ApprovalAbove c) n \<Longrightarrow> under (ru_ApprovalAbove a) n" for n
      by (rule narrowing_limits_None [OF a(2) _ lim(5,6)]) simp_all
  qed
qed

lemma ValidateNarrowing_meaning:
  assumes "ValidateNarrowing child (Some parent) = None" "rules_ok (kp_Rules child)" "list_all limits_ok (kp_Rules parent)"
    and perm: "permits child l n"
  shows "permits parent l n"
proof -
  from perm obtain c where c: "c \<in> set (kp_Rules child)" "rule_key c = leg_key l" "under (ru_MaxTransaction c) n"
    and deny: "\<not> kp_DenyAll child" by (auto simp: permits_def)
  from assms(1) deny have ids: "narrowing_ids [(kp_LedgerIDs child, kp_LedgerIDs parent), (kp_BalanceIDs child, kp_BalanceIDs parent)] = None"
    and rules: "narrowing_rules (kp_Rules child) (kp_Rules parent) = None" and deny': "\<not> kp_DenyAll parent"
    unfolding ValidateNarrowing_def by (simp_all only: option.case if_False split: if_splits option.splits) simp_all
  from assms(2) have cs: "list_all limits_ok (kp_Rules child)" by (simp add: rules_ok_def)
  obtain a where a: "a \<in> set (kp_Rules parent)" "rule_key a = rule_key c"
    "under (ru_MaxTransaction c) n \<Longrightarrow> under (ru_MaxTransaction a) n"
    by (rule narrowing_rules_None [OF rules c(1) cs assms(3)]) (rule that)
  have "Allowed (kp_LedgerIDs parent) i" if "Allowed (kp_LedgerIDs child) i" for i
    by (rule narrowing_ids_None [OF ids _ that]) simp
  moreover have "Allowed (kp_BalanceIDs parent) i" if "Allowed (kp_BalanceIDs child) i" for i
    by (rule narrowing_ids_None [OF ids _ that]) simp
  ultimately show ?thesis using perm a(1,2) a(3) [OF c(3)] c(2) deny' unfolding permits_def by metis
qed

lemma narrowing_authority:
  assumes "Validate child = None" "\<forall>p \<in> set ancestors. Validate p = None"
    and "Intersect key ancestors = Inr parent" "ValidateNarrowing child parent = None"
  shows "authority child \<subseteq> (\<Inter>p \<in> set ancestors. authority p)"
proof (cases "ancestors = []")
  case False
  from Intersect_meaning [OF this, of key] assms(2,3) Validate_rules_ok obtain q where
    q: "parent = Some q" "list_all limits_ok (kp_Rules q)" "authority q = (\<Inter>p \<in> set ancestors. authority p)" by force
  have "permits q l n" if "permits child l n" for l n
    using ValidateNarrowing_meaning [OF _ Validate_rules_ok [OF assms(1)] q(2) that] assms(4) q(1) by simp
  then have "authority child \<subseteq> authority q" by (auto simp: authority_def)
  with q(3) show ?thesis by simp
qed simp

subsection \<open>Properties\<close>

text \<open>
  C14: the effective policy of a key is the meet of the policies on its delegation path. For
  validated policies \<open>Intersect\<close> never fails, the postings it authorises are exactly those
  every policy authorises, and a posting needs approval exactly when some policy asks for it:
  nothing is gained by delegation and nothing is lost beyond what an ancestor forbids.
\<close>

theorem Intersect_authority:
  assumes "ps \<noteq> []" "\<forall>p \<in> set ps. Validate p = None"
  shows "\<exists>q. Intersect key ps = Inr (Some q) \<and> authority q = (\<Inter>p \<in> set ps. authority p) \<and>
    (\<forall>l n. permits q l n \<longrightarrow> (needs_approval q l n \<longleftrightarrow> (\<exists>p \<in> set ps. needs_approval p l n)))"
  using Intersect_meaning [of ps key] assms Validate_rules_ok by blast

definition ex_rule :: "string \<Rightarrow> string \<Rightarrow> SpendingRule" where
  "ex_rule mx ap = \<lparr>ru_Currency = ''USD'', ru_Precision = Fin 100, ru_MaxTransaction = mx, ru_DailyLimit = ''9'',
     ru_ApprovalAbove = ap\<rparr>"

definition ex_policy :: "string \<Rightarrow> string \<Rightarrow> string list \<Rightarrow> KeyPolicy" where
  "ex_policy k mx bs = \<lparr>kp_DenyAll = False, kp_InheritedFrom = [], kp_APIKeyID = k, kp_Version = 1,
     kp_Rules = [ex_rule mx ''2''], kp_LedgerIDs = [], kp_BalanceIDs = bs\<rparr>"

lemma ex_policies_valid:
  "Validate (ex_policy ''child'' ''5'' [''a'', ''b'']) = None" "Validate (ex_policy ''root'' ''7'' []) = None"
  by code_simp+

theorem Intersect_authority_witness:
  "\<exists>q. Intersect ''child'' [ex_policy ''child'' ''5'' [''a'', ''b''], ex_policy ''root'' ''7'' []] = Inr (Some q) \<and>
     authority q = authority (ex_policy ''child'' ''5'' [''a'', ''b'']) \<inter> authority (ex_policy ''root'' ''7'' [])"
  using Intersect_authority [of "[ex_policy ''child'' ''5'' [''a'', ''b''], ex_policy ''root'' ''7'' []]" "''child''"]
  by (auto simp: ex_policies_valid)



end
