(* ===== verification/Go_Json.thy ===== *)
theory Go_Json
  imports Sha256
begin

section \<open>encoding/json\<close>

text \<open>
  The text \<open>json.Marshal\<close> produces for the values the sources hash: strings with the escapes of
  the HTML-safe encoder, \<open>float64\<close> numbers in the shortest form that parses back, and objects
  written field by field. Bytes from 128 up are the bytes of valid UTF-8 text and are copied.
\<close>

definition json_escape :: "char \<Rightarrow> string" where
  "json_escape c =
     (let n = of_char c :: nat
      in if c = CHR 0x22 then [CHR 0x5C, CHR 0x22]
         else if c = CHR 0x5C then [CHR 0x5C, CHR 0x5C]
         else if n = 8 then CHR 0x5C # ''b''
         else if n = 12 then CHR 0x5C # ''f''
         else if n = 10 then CHR 0x5C # ''n''
         else if n = 13 then CHR 0x5C # ''r''
         else if n = 9 then CHR 0x5C # ''t''
         else if n < 32 \<or> c = CHR ''<'' \<or> c = CHR ''>'' \<or> c = CHR ''&''
         then CHR 0x5C # ''u00'' @ [hex_char (n div 16), hex_char (n mod 16)]
         else [c])"

definition json_string :: "string \<Rightarrow> string" where
  "json_string s = [CHR 0x22] @ concat (map json_escape s) @ [CHR 0x22]"

text \<open>The exponent form, used below \<open>1e-6\<close> and from \<open>1e21\<close>: two exponent digits at least, except
  that a single zero after a minus sign is dropped.\<close>

definition json_exponent :: "rat \<Rightarrow> string" where
  "json_exponent r =
     (let (d, e) = shortest_digits 16 1 r; ds = show_nat (nat d); x = e + int (length ds) - 1;
          m = hd ds # (if length ds = 1 then [] else CHR ''.'' # tl ds)
      in m @ (if x < 0 then ''e-'' @ show_nat (nat (- x)) else ''e+'' @ pad_left 2 (show_nat (nat x))))"

definition json_magnitude :: "rat \<Rightarrow> string" where
  "json_magnitude r = (if r < 1 / 1000000 \<or> 10 ^ 21 \<le> r then json_exponent r else FormatFloat_pos r)"

fun json_float :: "float64 \<Rightarrow> go_error + string" where
  "json_float (Fin r) =
     Inr (if r = 0 then ''0'' else if 0 < r then json_magnitude r else ''-'' @ json_magnitude (- r))"
| "json_float x = Inl (ErrorString ''json: unsupported value'')"

definition json_object :: "(string \<times> string) list \<Rightarrow> string" where
  "json_object fs = ''{'' @ Join (map (\<lambda>(k, v). json_string k @ '':'' @ v) fs) '','' @ ''}''"

definition json_array :: "string list \<Rightarrow> string" where
  "json_array xs = ''['' @ Join xs '','' @ '']''"

end
