(* ===== verification/Policy_Store.thy ===== *)
theory Policy_Store
  imports Policy Go_Json "HOL-Library.Product_Lexorder"
begin

section \<open>The policy tables (database/policy.go, database/policy_delegation.go)\<close>

text \<open>
  The tables of the policy migrations as a record, the queries and transactions of the
  datasource over it, and the two triggers that guard postings. Each operation runs in one
  database transaction that holds advisory locks on the whole ancestry of the key it works
  for, so the model runs operations one after the other; an error rolls the transaction back,
  which the sum type expresses by returning no new state. The clock and the generated
  identifiers are arguments. A policy document is stored as the record itself, which is what
  \<open>json.Unmarshal\<close> gives back for what \<open>json.Marshal\<close> wrote.
\<close>

subsection \<open>Tables\<close>

record policy_row =
  kr_document :: KeyPolicy
  kr_version :: int
  kr_enabled :: bool

record admission_row =
  ar_admission :: PolicyAdmission
  ar_fingerprint :: string

record policy_budget =
  bg_admission_id :: string
  bg_api_key_id :: string
  bg_currency :: string
  bg_precision :: float64
  bg_day :: time
  bg_amount :: int

record policy_binding =
  bd_reference :: string
  bd_transaction_id :: string
  bd_admission_id :: string
  bd_source :: string
  bd_destination :: string
  bd_currency :: string
  bd_precision :: float64
  bd_amount :: int
  bd_released :: int

record posting =
  po_transaction_id :: string
  po_parent_transaction :: string
  po_reference :: string
  po_status :: string
  po_queue_action :: string
  po_source :: string
  po_destination :: string
  po_currency :: string
  po_precision :: float64
  po_precise_amount :: int

type_synonym usage_key = "string \<times> string \<times> float64 \<times> time"

record policy_db =
  pd_parents :: "(string \<times> string) list"
  pd_policies :: "(string \<times> policy_row) list"
  pd_rules :: "(string \<times> SpendingRule) list"
  pd_usage :: "(usage_key \<times> int) list"
  pd_admissions :: "admission_row list"
  pd_budgets :: "policy_budget list"
  pd_bindings :: "policy_binding list"
  pd_transactions :: "posting list"

definition usage_at :: "policy_db \<Rightarrow> usage_key \<Rightarrow> int" where
  "usage_at db k = (case map_of (pd_usage db) k of None \<Rightarrow> 0 | Some n \<Rightarrow> n)"

definition unique_violation :: "string \<Rightarrow> go_error" where
  "unique_violation con = PqError ''23505'' con (''duplicate key value violates unique constraint '' @ con)"

subsection \<open>Delegation (policy_delegation.go)\<close>

text \<open>The recursive query: the key, then its ancestors by depth, cut after depth \<open>n\<close>.\<close>

fun climb :: "(string \<times> string) list \<Rightarrow> nat \<Rightarrow> string \<Rightarrow> string list" where
  "climb parents 0 key = [key]"
| "climb parents (Suc n) key =
     key # (case map_of parents key of None \<Rightarrow> [] | Some p \<Rightarrow> climb parents n p)"

definition keyAncestry :: "policy_db \<Rightarrow> string \<Rightarrow> go_error + string list" where
  "keyAncestry db key =
     (let ids = climb (pd_parents db) 64 key
      in if 64 < length ids then Inl (denied ''excessive delegation depth'') else Inr ids)"

definition lockPolicyAncestry :: "policy_db \<Rightarrow> string \<Rightarrow> go_error + (string list \<times> string list)" where
  "lockPolicyAncestry db key = bindE (keyAncestry db key) (\<lambda>ids. Inr (ids, sort ids))"

definition ancestorPolicies :: "policy_db \<Rightarrow> string list \<Rightarrow> KeyPolicy list" where
  "ancestorPolicies db ids =
     concat (map (\<lambda>i. case map_of (pd_policies db) i of
         None \<Rightarrow> []
       | Some r \<Rightarrow> if kr_enabled r then [(kr_document r)\<lparr>kp_APIKeyID := i, kp_Version := kr_version r\<rparr>] else []) ids)"

definition independentApprover :: "policy_db \<Rightarrow> string \<Rightarrow> Principal \<Rightarrow> go_error option" where
  "independentApprover db initiator p =
     (if pr_Master p then None
      else if initiator = pr_APIKeyID p then Some ErrDenied
      else case keyAncestry db initiator of
        Inl e \<Rightarrow> Some e
      | Inr initiatorIDs \<Rightarrow> (case keyAncestry db (pr_APIKeyID p) of
          Inl e \<Rightarrow> Some e
        | Inr approverIDs \<Rightarrow>
            if initiator \<in> set approverIDs then Some ErrDenied
            else if last initiatorIDs = last approverIDs \<and> length approverIDs \<noteq> 1 then Some ErrDenied
            else None))"

definition checkPolicyManagementTarget :: "policy_db \<Rightarrow> Principal \<Rightarrow> string \<Rightarrow> go_error option" where
  "checkPolicyManagementTarget db who target =
     (if pr_Master who \<or> pr_APIKeyID who = [] then None
      else case keyAncestry db (pr_APIKeyID who) of
        Inl e \<Rightarrow> Some e
      | Inr ancestors \<Rightarrow>
          if target \<in> set (tl ancestors)
          then Some (denied ''delegated keys cannot manage ancestor policies'') else None)"

subsection \<open>Policy documents\<close>

definition GetKeyPolicy :: "policy_db \<Rightarrow> string \<Rightarrow> go_error + KeyPolicy option" where
  "GetKeyPolicy db key = bindE (keyAncestry db key) (\<lambda>ids. Intersect key (ancestorPolicies db ids))"

text \<open>The constraints of \<open>policy_rules\<close> hold for every validated policy, so its rows are replaced.\<close>

definition PutKeyPolicy :: "Principal \<Rightarrow> KeyPolicy \<Rightarrow> policy_db \<Rightarrow> go_error + (policy_db \<times> KeyPolicy)" where
  "PutKeyPolicy who p db =
     (if kp_APIKeyID p = [] then Inl (ErrorString ''api_key_id is required'')
      else guardE (Validate p)
       (bindE (lockPolicyAncestry db (kp_APIKeyID p)) (\<lambda>(ids, _).
        guardE (checkPolicyManagementTarget db who (kp_APIKeyID p))
        (bindE (Intersect (kp_APIKeyID p) (ancestorPolicies db (tl ids))) (\<lambda>parent.
         guardE (ValidateNarrowing p parent)
         (let doc = p\<lparr>kp_InheritedFrom := []\<rparr>;
              version = (case map_of (pd_policies db) (kp_APIKeyID p) of None \<Rightarrow> 1 | Some r \<Rightarrow> kr_version r + 1);
              row = \<lparr>kr_document = doc, kr_version = version, kr_enabled = True\<rparr>
          in Inr (db\<lparr>pd_policies := AList.update (kp_APIKeyID p) row (pd_policies db),
                    pd_rules := filter (\<lambda>(k, r). k \<noteq> kp_APIKeyID p) (pd_rules db) @ map (Pair (kp_APIKeyID p)) (kp_Rules p)\<rparr>,
                  doc\<lparr>kp_Version := version\<rparr>)))))))"

definition DeleteKeyPolicy :: "Principal \<Rightarrow> string \<Rightarrow> policy_db \<Rightarrow> go_error + policy_db" where
  "DeleteKeyPolicy who key db =
     bindE (lockPolicyAncestry db key) (\<lambda>_.
     guardE (checkPolicyManagementTarget db who key)
     (Inr (case map_of (pd_policies db) key of
         None \<Rightarrow> db
       | Some r \<Rightarrow> db\<lparr>pd_policies :=
           AList.update key (r\<lparr>kr_enabled := False, kr_version := kr_version r + 1\<rparr>) (pd_policies db)\<rparr>)))"

subsection \<open>Admission\<close>

definition leg_json :: "PolicyLeg \<Rightarrow> go_error + string" where
  "leg_json l = bindE (json_float (pl_Precision l)) (\<lambda>prec. Inr (json_object [
     (''transaction_id'', json_string (pl_TransactionID l)), (''reference'', json_string (pl_Reference l)),
     (''source'', json_string (pl_Source l)), (''destination'', json_string (pl_Destination l)),
     (''source_ledger'', json_string (pl_SourceLedger l)), (''destination_ledger'', json_string (pl_DestinationLedger l)),
     (''currency'', json_string (pl_Currency l)), (''precision'', prec), (''amount'', json_string (pl_Amount l))]))"

fun legs_json :: "PolicyLeg list \<Rightarrow> go_error + string list" where
  "legs_json [] = Inr []"
| "legs_json (l # ls) = bindE (leg_json l) (\<lambda>x. bindE (legs_json ls) (\<lambda>xs. Inr (x # xs)))"

definition policyFingerprint :: "PolicyLeg list \<Rightarrow> go_error + string" where
  "policyFingerprint legs =
     bindE (legs_json (map (\<lambda>l. l\<lparr>pl_TransactionID := []\<rparr>) legs)) (\<lambda>xs. Inr (sha256_hex (if xs = [] then ''null'' else json_array xs)))"

definition rule_map :: "SpendingRule list \<Rightarrow> (string \<times> SpendingRule) list" where
  "rule_map rs = fold (\<lambda>r m. AList.update (rule_key r) r m) rs []"

definition zero_rule :: SpendingRule where
  "zero_rule = \<lparr>ru_Currency = [], ru_Precision = Fin 0, ru_MaxTransaction = [], ru_DailyLimit = [], ru_ApprovalAbove = []\<rparr>"

definition rule_at :: "(string \<times> SpendingRule) list \<Rightarrow> string \<Rightarrow> SpendingRule" where
  "rule_at m k = (case map_of m k of None \<Rightarrow> zero_rule | Some r \<Rightarrow> r)"

definition total_at :: "(string \<times> int) list \<Rightarrow> string \<Rightarrow> int" where
  "total_at m k = (case map_of m k of None \<Rightarrow> 0 | Some n \<Rightarrow> n)"

fun total_legs :: "KeyPolicy \<Rightarrow> (string \<times> SpendingRule) list \<Rightarrow> PolicyLeg list \<Rightarrow> (string \<times> int) list \<Rightarrow>
    go_error + (string \<times> int) list" where
  "total_legs p rules [] totals = Inr totals"
| "total_legs p rules (l # ls) totals =
     bindE (Integer (pl_Amount l)) (\<lambda>n.
       if map_of rules (leg_key l) = None then Inl (denied ''currency or precision is not allowed'')
       else if \<not> Allowed (kp_BalanceIDs p) (pl_Source l) \<or> \<not> Allowed (kp_BalanceIDs p) (pl_Destination l) \<or>
               \<not> Allowed (kp_LedgerIDs p) (pl_SourceLedger l) \<or> \<not> Allowed (kp_LedgerIDs p) (pl_DestinationLedger l)
       then Inl (denied ''balance or ledger is not allowed'')
       else total_legs p rules ls (AList.update (leg_key l) (total_at totals (leg_key l) + n) totals))"

text \<open>\<open>limit, _ := policy.Integer(s); n.Cmp(limit) > 0\<close>, guarded by \<open>s != ""\<close>.\<close>

definition exceeds :: "int \<Rightarrow> string \<Rightarrow> go_error + bool" where
  "exceeds n s = (if s = [] then Inr False else bindE (big_Cmp (Some n) (int_ptr s)) (\<lambda>c. Inr (0 < c)))"

fun check_totals :: "(string \<times> SpendingRule) list \<Rightarrow> (string \<times> int) list \<Rightarrow> string list \<Rightarrow> string \<Rightarrow> go_error + string" where
  "check_totals rules totals [] decision = Inr decision"
| "check_totals rules totals (k # ks) decision =
     bindE (exceeds (total_at totals k) (ru_MaxTransaction (rule_at rules k))) (\<lambda>over.
       if over then Inl (denied ''aggregate exceeds max_transaction'')
       else bindE (exceeds (total_at totals k) (ru_ApprovalAbove (rule_at rules k))) (\<lambda>ask.
         check_totals rules totals ks (if ask then ''pending'' else decision)))"

definition charge :: "string \<Rightarrow> time \<Rightarrow> SpendingRule \<Rightarrow> int \<Rightarrow> policy_db \<Rightarrow> go_error + policy_db" where
  "charge key day r n db =
     (let uk = (key, ru_Currency r, ru_Precision r, day); current = usage_at db uk + n
      in bindE (exceeds current (ru_DailyLimit r)) (\<lambda>over.
           if over then Inl (denied ''shared ancestor daily_limit exhausted'')
           else Inr (db\<lparr>pd_usage := AList.update uk current (pd_usage db)\<rparr>)))"

fun charge_keys :: "string \<Rightarrow> time \<Rightarrow> (string \<times> SpendingRule) list \<Rightarrow> (string \<times> int) list \<Rightarrow> string list \<Rightarrow>
    policy_db \<Rightarrow> go_error + policy_db" where
  "charge_keys key day rules totals [] db = Inr db"
| "charge_keys key day rules totals (k # ks) db =
     bindE (charge key day (rule_at rules k) (total_at totals k) db) (charge_keys key day rules totals ks)"

fun charge_ancestors :: "time \<Rightarrow> (string \<times> int) list \<Rightarrow> string list \<Rightarrow> KeyPolicy list \<Rightarrow> policy_db \<Rightarrow> go_error + policy_db" where
  "charge_ancestors day totals keys [] db = Inr db"
| "charge_ancestors day totals keys (a # as) db =
     bindE (charge_keys (kp_APIKeyID a) day (rule_map (kp_Rules a)) totals keys db) (charge_ancestors day totals keys as)"

definition insert_admission :: "PolicyAdmission \<Rightarrow> string \<Rightarrow> policy_db \<Rightarrow> go_error + policy_db" where
  "insert_admission a fingerprint db =
     (if list_ex (\<lambda>r. pa_ID (ar_admission r) = pa_ID a) (pd_admissions db)
      then Inl (unique_violation ''policy_admissions_pkey'')
      else if list_ex (\<lambda>r. pa_APIKeyID (ar_admission r) = pa_APIKeyID a \<and> pa_Identity (ar_admission r) = pa_Identity a) (pd_admissions db)
      then Inl (unique_violation ''policy_admissions_api_key_id_identity_key'')
      else Inr (db\<lparr>pd_admissions := pd_admissions db @ [\<lparr>ar_admission = a, ar_fingerprint = fingerprint\<rparr>]\<rparr>))"

definition same_budget :: "policy_budget \<Rightarrow> policy_budget \<Rightarrow> bool" where
  "same_budget b c = (bg_admission_id b = bg_admission_id c \<and> bg_api_key_id b = bg_api_key_id c \<and>
     bg_currency b = bg_currency c \<and> bg_precision b = bg_precision c)"

fun insert_budgets :: "policy_budget list \<Rightarrow> policy_db \<Rightarrow> go_error + policy_db" where
  "insert_budgets [] db = Inr db"
| "insert_budgets (b # bs) db =
     (if list_ex (same_budget b) (pd_budgets db) then Inl (unique_violation ''policy_admission_budgets_pkey'')
      else insert_budgets bs (db\<lparr>pd_budgets := pd_budgets db @ [b]\<rparr>))"

definition admission_budgets :: "string \<Rightarrow> time \<Rightarrow> (string \<times> SpendingRule) list \<Rightarrow> (string \<times> int) list \<Rightarrow> string list \<Rightarrow>
    KeyPolicy list \<Rightarrow> policy_budget list" where
  "admission_budgets adm day rules totals keys policies =
     concat (map (\<lambda>a. map (\<lambda>k. \<lparr>bg_admission_id = adm, bg_api_key_id = kp_APIKeyID a,
       bg_currency = ru_Currency (rule_at rules k), bg_precision = ru_Precision (rule_at rules k),
       bg_day = day, bg_amount = total_at totals k\<rparr>) keys) policies)"

definition leg_binding :: "string \<Rightarrow> PolicyLeg \<Rightarrow> policy_binding" where
  "leg_binding adm l = \<lparr>bd_reference = pl_Reference l, bd_transaction_id = pl_TransactionID l, bd_admission_id = adm,
     bd_source = pl_Source l, bd_destination = pl_Destination l, bd_currency = pl_Currency l,
     bd_precision = pl_Precision l, bd_amount = (case Integer (pl_Amount l) of Inr n \<Rightarrow> n | Inl e \<Rightarrow> 0), bd_released = 0\<rparr>"

fun insert_bindings :: "policy_binding list \<Rightarrow> policy_db \<Rightarrow> go_error + policy_db" where
  "insert_bindings [] db = Inr db"
| "insert_bindings (b # bs) db =
     (if list_ex (\<lambda>c. bd_reference c = bd_reference b) (pd_bindings db)
      then Inl (errorf_w ''policy reference is already admitted'' (unique_violation ''policy_bindings_pkey''))
      else if list_ex (\<lambda>c. bd_transaction_id c = bd_transaction_id b) (pd_bindings db)
      then Inl (errorf_w ''policy reference is already admitted'' (unique_violation ''policy_bindings_transaction_id_key''))
      else insert_bindings bs (db\<lparr>pd_bindings := pd_bindings db @ [b]\<rparr>))"

text \<open>A request whose identity is already known: the earlier admission is returned when it is the
  same request and still live.\<close>

definition replay_admission :: "string \<Rightarrow> admission_row \<Rightarrow> policy_db \<Rightarrow> go_error + PolicyAdmission" where
  "replay_admission fingerprint row db =
     (if fingerprint \<noteq> ar_fingerprint row then Inl ErrIdentityConflict
      else if pa_Decision (ar_admission row) = ''rejected'' then Inl ErrDenied
      else if list_ex (\<lambda>b. bd_admission_id b = pa_ID (ar_admission row) \<and> 0 < bd_released b) (pd_bindings db) then Inl ErrDenied
      else Inr (ar_admission row))"

definition admit_new :: "time \<Rightarrow> string \<Rightarrow> string \<Rightarrow> string \<Rightarrow> PolicyLeg list \<Rightarrow> string \<Rightarrow> KeyPolicy list \<Rightarrow> KeyPolicy \<Rightarrow>
    policy_db \<Rightarrow> go_error + (policy_db \<times> PolicyAdmission)" where
  "admit_new now newid key identity legs fingerprint policies p db =
     (let rules = rule_map (kp_Rules p)
      in bindE (total_legs p rules legs []) (\<lambda>totals.
         if legs = [] then Inl (ErrorString ''policy admission requires transaction legs'')
         else (let keys = sort (map fst totals); day = utc_day now; ordered = sort_key kp_APIKeyID policies
         in bindE (check_totals rules totals keys ''not_required'') (\<lambda>decision.
            bindE (charge_ancestors day totals keys ordered db) (\<lambda>db1.
            let a = \<lparr>pa_ID = newid, pa_APIKeyID = key, pa_Identity = identity, pa_Version = kp_Version p,
                     pa_Day = day, pa_Decision = decision, pa_DecidedBy = [], pa_Legs = legs\<rparr>
            in bindE (insert_admission a fingerprint db1) (\<lambda>db2.
               bindE (insert_budgets (admission_budgets newid day rules totals keys ordered) db2) (\<lambda>db3.
               bindE (insert_bindings (map (leg_binding newid) legs) db3) (\<lambda>db4. Inr (db4, a)))))))))"

definition AdmitPolicy :: "time \<Rightarrow> string \<Rightarrow> string \<Rightarrow> string \<Rightarrow> PolicyLeg list \<Rightarrow> policy_db \<Rightarrow>
    go_error + (policy_db \<times> PolicyAdmission option)" where
  "AdmitPolicy now newid key identity legs db =
     bindE (lockPolicyAncestry db key) (\<lambda>(ids, _).
     let policies = ancestorPolicies db ids
     in bindE (policyFingerprint legs) (\<lambda>fingerprint.
        case find (\<lambda>r. pa_APIKeyID (ar_admission r) = key \<and> pa_Identity (ar_admission r) = identity) (pd_admissions db) of
          Some row \<Rightarrow> bindE (replay_admission fingerprint row db) (\<lambda>a. Inr (db, Some a))
        | None \<Rightarrow>
            bindE (Intersect key policies) (\<lambda>effective.
            case effective of
              None \<Rightarrow> Inr (db, None)
            | Some p \<Rightarrow>
                if kp_DenyAll p then Inl ErrDenied
                else bindE (admit_new now newid key identity legs fingerprint policies p db) (\<lambda>(db', a). Inr (db', Some a)))))"

subsection \<open>Lifecycle of an admission\<close>

text \<open>The recursive query over \<open>parent_transaction\<close>: the transaction and its ancestors by depth.\<close>

fun climb_txn :: "posting list \<Rightarrow> nat \<Rightarrow> string \<Rightarrow> string list" where
  "climb_txn ts 0 i = [i]"
| "climb_txn ts (Suc n) i =
     i # (case find (\<lambda>t. po_transaction_id t = i) ts of
            Some t \<Rightarrow> if po_parent_transaction t \<noteq> [] \<and> po_parent_transaction t \<noteq> i
                      then climb_txn ts n (po_parent_transaction t) else []
          | None \<Rightarrow> [])"

fun binding_of :: "policy_binding list \<Rightarrow> string list \<Rightarrow> policy_binding option" where
  "binding_of bs [] = None"
| "binding_of bs (i # is) = (case find (\<lambda>b. bd_transaction_id b = i) bs of Some b \<Rightarrow> Some b | None \<Rightarrow> binding_of bs is)"

definition policyReference :: "policy_db \<Rightarrow> string \<Rightarrow> string" where
  "policyReference db i = (case binding_of (pd_bindings db) (climb_txn (pd_transactions db) 16 i) of
       None \<Rightarrow> [] | Some b \<Rightarrow> bd_reference b)"

definition find_admission :: "policy_db \<Rightarrow> string \<Rightarrow> admission_row option" where
  "find_admission db i = find (\<lambda>r. pa_ID (ar_admission r) = i) (pd_admissions db)"

definition find_binding :: "policy_db \<Rightarrow> string \<Rightarrow> policy_binding option" where
  "find_binding db ref = find (\<lambda>b. bd_reference b = ref) (pd_bindings db)"

text \<open>A posting refers to a binding by its reference or by the queued form of it.\<close>

definition posts :: "string \<Rightarrow> policy_binding \<Rightarrow> bool" where
  "posts ref b = (bd_reference b = ref \<or> bd_reference b @ ''_q'' = ref)"

definition VerifyPolicyLeg :: "policy_db \<Rightarrow> Transaction \<Rightarrow> go_error + PolicyAdmission option" where
  "VerifyPolicyLeg db t = (case find (posts (tx_Reference t)) (pd_bindings db) of
       None \<Rightarrow> Inr None
     | Some b \<Rightarrow>
         if (case tx_PreciseAmount t of None \<Rightarrow> True | Some n \<Rightarrow> bd_amount b \<noteq> n) \<or>
            bd_source b \<noteq> tx_Source t \<or> bd_destination b \<noteq> tx_Destination t \<or> bd_currency b \<noteq> tx_Currency t \<or>
            \<not> f64_eq (bd_precision b) (tx_Precision t) \<or> bd_released b \<noteq> 0
         then Inl ErrIdentityConflict
         else (case find_admission db (bd_admission_id b) of
             None \<Rightarrow> Inl ErrNoRows
           | Some r \<Rightarrow> if pa_Decision (ar_admission r) = ''rejected'' then Inl ErrDenied else Inr (Some (ar_admission r))))"

definition CheckPolicyCommit :: "policy_db \<Rightarrow> string \<Rightarrow> go_error option" where
  "CheckPolicyCommit db i =
     (let ref = policyReference db i
      in if ref = [] then None
         else case find_binding db ref of
           None \<Rightarrow> Some ErrNoRows
         | Some b \<Rightarrow> (case find_admission db (bd_admission_id b) of
             None \<Rightarrow> Some ErrNoRows
           | Some r \<Rightarrow>
               if pa_Decision (ar_admission r) \<noteq> ''approved'' \<and> pa_Decision (ar_admission r) \<noteq> ''not_required''
               then Some ErrApprovalRequired else None))"

definition ListPolicyApprovals :: "policy_db \<Rightarrow> string \<Rightarrow> PolicyAdmission list" where
  "ListPolicyApprovals db key =
     take 100 (sort_key (\<lambda>a. (pa_Day a, pa_ID a))
       (filter (\<lambda>a. pa_Decision a = ''pending'' \<and> (key = [] \<or> pa_APIKeyID a = key)) (map ar_admission (pd_admissions db))))"

definition set_decision :: "string \<Rightarrow> string \<Rightarrow> string \<Rightarrow> policy_db \<Rightarrow> policy_db" where
  "set_decision i decision actor db = db\<lparr>pd_admissions :=
     map (\<lambda>r. if pa_ID (ar_admission r) = i
              then r\<lparr>ar_admission := (ar_admission r)\<lparr>pa_Decision := decision, pa_DecidedBy := actor\<rparr>\<rparr> else r)
         (pd_admissions db)\<rparr>"

definition DecidePolicyApproval :: "string \<Rightarrow> Principal \<Rightarrow> bool \<Rightarrow> policy_db \<Rightarrow> go_error + (policy_db \<times> PolicyAdmission)" where
  "DecidePolicyApproval i p approve db =
     (if \<not> CanApprove p then Inl ErrDenied
      else case find_admission db i of
        None \<Rightarrow> Inl ErrNoRows
      | Some r \<Rightarrow>
          (let a = ar_admission r; decision = (if approve then ''approved'' else ''rejected'');
               actor = (if pr_Master p then ''master'' else pr_APIKeyID p)
           in guardE (independentApprover db (pa_APIKeyID a) p)
              (if pa_Decision a = decision then Inr (db, a)
               else if pa_Decision a \<noteq> ''pending'' then Inl (ErrorString ''approval decision is final'')
               else Inr (set_decision i decision actor db, a\<lparr>pa_Decision := decision, pa_DecidedBy := actor\<rparr>))))"

definition PolicyHoldIDs :: "policy_db \<Rightarrow> string \<Rightarrow> string list" where
  "PolicyHoldIDs db i =
     sort (concat (map (\<lambda>t. map (\<lambda>_. po_transaction_id t)
       (filter (\<lambda>b. posts (po_reference t) b \<and> bd_admission_id b = i) (pd_bindings db)))
       (filter (\<lambda>t. po_status t = ''INFLIGHT'') (pd_transactions db))))"

subsection \<open>Release of reservations (1791504002.sql, 1791504003.sql)\<close>

text \<open>
  \<open>policy_releasable_capacity\<close>: the postings of the reference and, repeatedly, their children
  with the same parties. Each round of the recursive query adds at least one new row or stops,
  so as many rounds as there are rows reach its fixed point.
\<close>

definition family_child :: "policy_db \<Rightarrow> policy_binding \<Rightarrow> posting list \<Rightarrow> posting \<Rightarrow> bool" where
  "family_child db b fam t =
     (list_ex (\<lambda>f. po_parent_transaction t = po_transaction_id f) fam \<and>
      po_source t = bd_source b \<and> po_destination t = bd_destination b \<and> po_currency t = bd_currency b \<and>
      po_precision t = bd_precision b \<and>
      \<not> list_ex (\<lambda>other. bd_transaction_id other = po_transaction_id t \<and> bd_reference other \<noteq> bd_reference b) (pd_bindings db))"

fun grow_family :: "policy_db \<Rightarrow> policy_binding \<Rightarrow> nat \<Rightarrow> posting list \<Rightarrow> posting list" where
  "grow_family db b 0 fam = fam"
| "grow_family db b (Suc n) fam =
     grow_family db b n (fam @ filter (\<lambda>t. t \<notin> set fam \<and> family_child db b fam t) (pd_transactions db))"

definition family :: "policy_db \<Rightarrow> policy_binding \<Rightarrow> posting list" where
  "family db b = grow_family db b (length (pd_transactions db))
     (filter (\<lambda>t. posts (po_reference t) b) (pd_transactions db))"

definition policy_releasable_capacity :: "policy_db \<Rightarrow> policy_binding \<Rightarrow> int" where
  "policy_releasable_capacity db b =
     (let fam = family db b
      in if list_ex (\<lambda>t. po_status t = ''REJECTED'' \<and> posts (po_reference t) b) fam then bd_amount b
         else min (bd_amount b) (sum_list (map po_precise_amount (filter (\<lambda>t. po_status t = ''VOID'') fam))))"

definition budget_key :: "policy_budget \<Rightarrow> usage_key" where
  "budget_key b = (bg_api_key_id b, bg_currency b, bg_precision b, bg_day b)"

definition budget_for :: "string \<Rightarrow> string \<Rightarrow> float64 \<Rightarrow> policy_budget \<Rightarrow> bool" where
  "budget_for adm currency precision b = (bg_admission_id b = adm \<and> bg_currency b = currency \<and> bg_precision b = precision)"

text \<open>An \<open>UPDATE\<close> of a usage row that does not exist changes nothing.\<close>

definition release_usage :: "int \<Rightarrow> usage_key \<Rightarrow> (usage_key \<times> int) list \<Rightarrow> (usage_key \<times> int) list" where
  "release_usage delta k us = (case map_of us k of None \<Rightarrow> us | Some n \<Rightarrow> AList.update k (n - delta) us)"

definition release_policy_budgets :: "string \<Rightarrow> string \<Rightarrow> float64 \<Rightarrow> int \<Rightarrow> policy_db \<Rightarrow> policy_db" where
  "release_policy_budgets adm currency precision delta db = db\<lparr>pd_usage :=
     fold (release_usage delta) (map budget_key (sort_key bg_api_key_id (filter (budget_for adm currency precision) (pd_budgets db)))) (pd_usage db)\<rparr>"

definition set_released :: "string \<Rightarrow> int \<Rightarrow> policy_db \<Rightarrow> policy_db" where
  "set_released ref n db = db\<lparr>pd_bindings :=
     map (\<lambda>b. if bd_reference b = ref then b\<lparr>bd_released := n\<rparr> else b) (pd_bindings db)\<rparr>"

text \<open>The final \<open>UPDATE\<close>: a pending admission whose bindings are all released is rejected.\<close>

definition reject_released :: "string \<Rightarrow> policy_db \<Rightarrow> policy_db" where
  "reject_released adm db = db\<lparr>pd_admissions :=
     map (\<lambda>r. if pa_ID (ar_admission r) = adm \<and> pa_Decision (ar_admission r) = ''pending'' \<and>
                 \<not> list_ex (\<lambda>b. bd_admission_id b = adm \<and> bd_released b < bd_amount b) (pd_bindings db)
              then r\<lparr>ar_admission := (ar_admission r)\<lparr>pa_Decision := ''rejected'', pa_DecidedBy := ''system:void-or-failure''\<rparr>\<rparr>
              else r) (pd_admissions db)\<rparr>"

definition ReleasePolicyLeg :: "string \<Rightarrow> policy_db \<Rightarrow> go_error + policy_db" where
  "ReleasePolicyLeg i db =
     (let ref = policyReference db i
      in if ref = [] then Inr db
         else case find_binding db ref of
           None \<Rightarrow> Inl ErrNoRows
         | Some b \<Rightarrow>
             if find_admission db (bd_admission_id b) = None then Inl ErrNoRows
             else (let unused = policy_releasable_capacity db b; delta = unused - bd_released b
                   in if unused < 0
                      then Inl (errorf_w ''invalid persisted policy release''
                             (ErrorString ''policy amounts must be canonical nonnegative integers''))
                      else if delta \<le> 0 then Inr db
                      else Inr (reject_released (bd_admission_id b) (set_released ref unused
                             (release_policy_budgets (bd_admission_id b) (bd_currency b) (bd_precision b) delta db)))))"

subsection \<open>The posting triggers (1791504001.sql, 1791504003.sql)\<close>

text \<open>
  A \<open>posting\<close> holds the columns the triggers read; \<open>precise_amount\<close> is never null in rows the
  program writes, and the admission marks the trigger adds to \<open>meta_data\<close> are not read back.
\<close>

definition exception :: "string \<Rightarrow> go_error" where
  "exception msg = PqError ''23514'' [] msg"

definition posting_binding :: "policy_db \<Rightarrow> posting \<Rightarrow> (policy_binding \<times> bool) option" where
  "posting_binding db t = (case find (posts (po_reference t)) (pd_bindings db) of
       Some b \<Rightarrow> Some (b, True)
     | None \<Rightarrow>
         if po_parent_transaction t = [] then None
         else (case find (\<lambda>p. po_transaction_id p = po_parent_transaction t) (pd_transactions db) of
             None \<Rightarrow> None
           | Some p \<Rightarrow>
               if po_status p = ''INFLIGHT'' \<or> (po_status p = ''QUEUED'' \<and> po_queue_action p = ''COMMIT'')
               then map_option (\<lambda>b. (b, False)) (binding_of (pd_bindings db) (climb_txn (pd_transactions db) 16 (po_parent_transaction t)))
               else None))"

definition enforce_policy_posting :: "policy_db \<Rightarrow> posting \<Rightarrow> go_error option" where
  "enforce_policy_posting db t = (case posting_binding db t of
       None \<Rightarrow> None
     | Some (b, original) \<Rightarrow>
         (let decision = (case find_admission db (bd_admission_id b) of None \<Rightarrow> [] | Some r \<Rightarrow> pa_Decision (ar_admission r));
              live = (po_status t \<noteq> ''VOID'' \<and> po_status t \<noteq> ''REJECTED'')
          in if po_source t \<noteq> bd_source b \<or> po_destination t \<noteq> bd_destination b \<or> po_currency t \<noteq> bd_currency b \<or>
                po_precision t \<noteq> bd_precision b \<or> po_precise_amount t < 0 \<or>
                (original \<and> po_precise_amount t \<noteq> bd_amount b) \<or> (\<not> original \<and> bd_amount b < po_precise_amount t)
             then Some (exception ''policy admission transaction details do not match'')
             else if live \<and> 0 < bd_released b \<and> (original \<or> bd_amount b - bd_released b < po_precise_amount t)
             then Some (exception ''policy reservation was released'')
             else if live \<and> decision = ''rejected'' then Some (exception ''policy approval was rejected'')
             else if live \<and> (po_status t = ''APPLIED'' \<or> po_queue_action t = ''COMMIT'') \<and>
                     decision \<noteq> ''approved'' \<and> decision \<noteq> ''not_required''
             then Some (exception ''policy transaction requires independent approval'')
             else if po_status t = ''APPLIED'' \<and> original \<and> decision = ''approved''
             then Some (exception ''approved policy transaction must settle its hold'')
             else None))"

definition release_terminal_policy_reservation :: "posting \<Rightarrow> policy_db \<Rightarrow> policy_db" where
  "release_terminal_policy_reservation t db =
     (if po_status t \<noteq> ''VOID'' \<and> po_status t \<noteq> ''REJECTED'' then db
      else case binding_of (pd_bindings db) (climb_txn (pd_transactions db) 16 (po_transaction_id t)) of
        None \<Rightarrow> db
      | Some b \<Rightarrow>
          (let unused = policy_releasable_capacity db b; delta = unused - bd_released b
           in reject_released (bd_admission_id b)
                (if 0 < delta
                 then set_released (bd_reference b) unused
                        (release_policy_budgets (bd_admission_id b) (bd_currency b) (bd_precision b) delta db)
                 else db)))"

definition insert_posting :: "posting \<Rightarrow> policy_db \<Rightarrow> go_error + policy_db" where
  "insert_posting t db =
     guardE (enforce_policy_posting db t)
       (if list_ex (\<lambda>u. po_transaction_id u = po_transaction_id t) (pd_transactions db)
        then Inl (unique_violation ''transactions_transaction_id_key'')
        else if list_ex (\<lambda>u. po_reference u = po_reference t) (pd_transactions db)
        then Inl (unique_violation ''idx_transactions_reference_unique'')
        else Inr (release_terminal_policy_reservation t (db\<lparr>pd_transactions := pd_transactions db @ [t]\<rparr>)))"

subsection \<open>Capacity\<close>

definition capacity_step :: "policy_db \<Rightarrow> SpendingRule \<Rightarrow> time \<Rightarrow> KeyPolicy \<Rightarrow> PolicyCapacity \<times> int option \<Rightarrow>
    go_error + (PolicyCapacity \<times> int option)" where
  "capacity_step db rule day ancestor st =
     (let (c, primaryLimit) = st;
          own = (case find (\<lambda>r. rule_key r = rule_key rule) (kp_Rules ancestor) of None \<Rightarrow> zero_rule | Some r \<Rightarrow> r);
          used = usage_at db (kp_APIKeyID ancestor, ru_Currency rule, ru_Precision rule, day);
          c1 = c\<lparr>pc_Budgets := pc_Budgets c @ [\<lparr>bc_APIKeyID = kp_APIKeyID ancestor, bc_Used = show_int used, bc_Limit = ru_DailyLimit own\<rparr>],
                 pc_Used := (if primaryLimit = None then show_int used else pc_Used c)\<rparr>
      in if ru_DailyLimit own = [] then Inr (c1, primaryLimit)
         else case int_ptr (ru_DailyLimit own) of
           None \<Rightarrow> Inl (GoPanic ''nil pointer dereference'')
         | Some limit \<Rightarrow>
             (let narrower = (case primaryLimit of None \<Rightarrow> True | Some l \<Rightarrow> limit < l);
                  c2 = (if narrower then c1\<lparr>pc_Used := show_int used\<rparr> else c1);
                  left = max 0 (limit - used);
                  c3 = (case pc_Remaining c2 of
                      None \<Rightarrow> c2\<lparr>pc_Remaining := Some (show_int left)\<rparr>
                    | Some s \<Rightarrow> (case int_ptr s of
                        Some prior \<Rightarrow> if left < prior then c2\<lparr>pc_Remaining := Some (show_int left)\<rparr> else c2
                      | None \<Rightarrow> c2))
              in Inr (c3, if narrower then Some limit else primaryLimit)))"

fun capacity_loop :: "policy_db \<Rightarrow> SpendingRule \<Rightarrow> time \<Rightarrow> KeyPolicy list \<Rightarrow> PolicyCapacity \<times> int option \<Rightarrow> go_error + PolicyCapacity" where
  "capacity_loop db rule day [] st = Inr (fst st)"
| "capacity_loop db rule day (a # as) st = bindE (capacity_step db rule day a st) (capacity_loop db rule day as)"

fun capacities :: "policy_db \<Rightarrow> time \<Rightarrow> KeyPolicy list \<Rightarrow> SpendingRule list \<Rightarrow> go_error + PolicyCapacity list" where
  "capacities db day policies [] = Inr []"
| "capacities db day policies (r # rs) =
     bindE (capacity_loop db r day policies (\<lparr>pc_Budgets = [], pc_Currency = ru_Currency r, pc_Precision = ru_Precision r,
       pc_Day = day, pc_Used = ''0'', pc_Remaining = None\<rparr>, None)) (\<lambda>c.
     bindE (capacities db day policies rs) (\<lambda>cs. Inr (c # cs)))"

definition PolicyCapacity_of :: "time \<Rightarrow> string \<Rightarrow> policy_db \<Rightarrow> go_error + PolicyCapacity list option" where
  "PolicyCapacity_of now key db =
     bindE (keyAncestry db key) (\<lambda>ids.
     let policies = ancestorPolicies db ids
     in bindE (Intersect key policies) (\<lambda>effective. case effective of
          None \<Rightarrow> Inr None
        | Some p \<Rightarrow> bindE (capacities db (utc_day now) policies (kp_Rules p)) (\<lambda>cs. Inr (Some cs))))"

subsection \<open>Ancestry as a relation\<close>

text \<open>\<open>ancestors db k\<close>: the key and everything above it in the delegation order.\<close>

definition parent_rel :: "policy_db \<Rightarrow> (string \<times> string) set" where
  "parent_rel db = {(k, p). map_of (pd_parents db) k = Some p}"

definition ancestors :: "policy_db \<Rightarrow> string \<Rightarrow> string set" where
  "ancestors db k = {x. (k, x) \<in> (parent_rel db)\<^sup>*}"

definition is_root :: "policy_db \<Rightarrow> string \<Rightarrow> bool" where
  "is_root db k = (map_of (pd_parents db) k = None)"

lemma ancestors_root: "is_root db k \<Longrightarrow> ancestors db k = {k}"
  by (auto simp: ancestors_def is_root_def parent_rel_def elim: converse_rtranclE)

lemma ancestors_step: "map_of (pd_parents db) k = Some p \<Longrightarrow> ancestors db k = insert k (ancestors db p)"
  by (auto simp: ancestors_def parent_rel_def elim: converse_rtranclE intro: converse_rtrancl_into_rtrancl)

lemma climb_nonempty [simp]: "climb ps n k \<noteq> []"
  by (cases n) auto

lemma hd_climb: "hd (climb ps n k) = k"
  by (cases n) auto

lemma climb_complete:
  assumes "length (climb (pd_parents db) n k) \<le> n"
  shows "is_root db (last (climb (pd_parents db) n k)) \<and> set (climb (pd_parents db) n k) = ancestors db k"
  using assms
proof (induction n arbitrary: k)
  case (Suc n)
  show ?case
  proof (cases "map_of (pd_parents db) k")
    case None
    then show ?thesis by (simp add: ancestors_root is_root_def)
  next
    case (Some p)
    with Suc show ?thesis by (simp add: ancestors_step)
  qed
qed simp

lemma keyAncestry_Inr:
  assumes "keyAncestry db key = Inr ids"
  shows "length ids \<le> 64" "set ids = ancestors db key" "is_root db (last ids)" "ids \<noteq> []" "hd ids = key"
    "ids = climb (pd_parents db) 64 key"
  using assms climb_complete [of db 64 key] by (auto simp: keyAncestry_def Let_def hd_climb split: if_splits)

lemma lockPolicyAncestry_Inr: "lockPolicyAncestry db key = Inr (ids, locks) \<longleftrightarrow> keyAncestry db key = Inr ids \<and> locks = sort ids"
  by (auto simp: lockPolicyAncestry_def bindE_Inr_iff)

lemma unique_root:
  assumes "x \<in> ancestors db k" "y \<in> ancestors db k" "is_root db x" "is_root db y"
  shows "x = y"
proof -
  have "single_valued (parent_rel db)" by (auto simp: single_valued_def parent_rel_def)
  from single_valued_confluent [OF this] assms(1,2) have "y \<in> ancestors db x \<or> x \<in> ancestors db y" by (simp add: ancestors_def)
  with assms(3,4) show ?thesis by (auto simp: ancestors_root)
qed

lemma climb_distinct: "is_root db (last (climb (pd_parents db) n k)) \<Longrightarrow> distinct (climb (pd_parents db) n k)"
proof (induction n arbitrary: k)
  case (Suc n)
  show ?case
  proof (cases "map_of (pd_parents db) k")
    case (Some p)
    let ?R = "parent_rel db"
    have sub: "x \<in> set (climb (pd_parents db) m y) \<Longrightarrow> (y, x) \<in> ?R\<^sup>*" for x m y
    proof (induction m arbitrary: y)
      case (Suc m)
      show ?case
      proof (cases "x = y")
        case False
        with Suc.prems obtain q where "map_of (pd_parents db) y = Some q" "x \<in> set (climb (pd_parents db) m q)"
          by (cases "map_of (pd_parents db) y") auto
        with Suc.IH show ?thesis by (intro converse_rtrancl_into_rtrancl [of y q]) (simp_all add: parent_rel_def)
      qed simp
    qed simp
    have "k \<notin> set (climb (pd_parents db) n p)"
    proof
      assume "k \<in> set (climb (pd_parents db) n p)"
      then have cycle: "(p, k) \<in> ?R\<^sup>*" by (rule sub)
      have returns: "(k, x) \<in> ?R\<^sup>* \<Longrightarrow> (x, k) \<in> ?R\<^sup>*" for x
      proof (induction rule: rtrancl_induct)
        case (step y z)
        from step.IH show ?case
        proof (cases rule: converse_rtranclE)
          case base
          with step.hyps(2) Some cycle show ?thesis by (simp add: parent_rel_def)
        next
          case (step w)
          with \<open>(y, z) \<in> ?R\<close> show ?thesis by (simp add: parent_rel_def)
        qed
      qed simp
      define r where "r = last (climb (pd_parents db) (Suc n) k)"
      have "(k, r) \<in> ?R\<^sup>*" unfolding r_def by (rule sub [OF last_in_set]) simp
      from returns [OF this] have "k \<in> ancestors db r" by (simp add: ancestors_def)
      moreover from Suc.prems have "is_root db r" by (simp only: r_def)
      ultimately have "is_root db k" by (simp add: ancestors_root)
      with Some show False by (simp add: is_root_def)
    qed
    with Suc Some show ?thesis by simp
  qed simp
qed simp

lemma keyAncestry_distinct: "keyAncestry db key = Inr ids \<Longrightarrow> distinct ids"
  using keyAncestry_Inr(3,6) climb_distinct by metis

subsection \<open>Keys of rules and legs\<close>

text \<open>A precision is integral when it is a nonnegative whole number.\<close>

definition integral :: "float64 \<Rightarrow> bool" where
  "integral x = (case x of Fin r \<Rightarrow> 0 \<le> r \<and> of_int \<lfloor>r\<rfloor> = r | _ \<Rightarrow> False)"

lemma integral_iff: "integral x \<longleftrightarrow> (\<exists>n \<ge> 0. x = Fin (of_int n))"
proof
  assume "integral x"
  then obtain r where "x = Fin r" "0 \<le> r" "of_int \<lfloor>r\<rfloor> = r" by (cases x) (auto simp: integral_def)
  then have "0 \<le> \<lfloor>r\<rfloor> \<and> x = Fin (of_int \<lfloor>r\<rfloor>)" by (metis zero_le_floor)
  then show "\<exists>n \<ge> 0. x = Fin (of_int n)" by blast
qed (auto simp: integral_def)

lemma slash_not_digit: "0 \<le> n \<Longrightarrow> CHR ''/'' \<notin> set (show_int n)"
proof
  assume "0 \<le> n" "CHR ''/'' \<in> set (show_int n)"
  then have "is_digit CHR ''/''" using show_nat_digits [of "nat n"] by (auto simp: show_int_def list_all_iff simp del: show_nat_digits)
  then show False by (simp add: is_digit_def)
qed

lemma append_slash_inject:
  assumes "a @ CHR ''/'' # x = b @ CHR ''/'' # y" "CHR ''/'' \<notin> set x" "CHR ''/'' \<notin> set y"
  shows "a = b \<and> x = y"
  using assms by (auto simp: append_eq_append_conv2 Cons_eq_append_conv append_eq_Cons_conv)

lemma RuleKey_inject:
  assumes "RuleKey c p = RuleKey d q" "integral p" "integral q"
  shows "c = d \<and> p = q"
proof -
  from assms(2,3) obtain n m where nm: "0 \<le> n" "0 \<le> m" "p = Fin (of_int n)" "q = Fin (of_int m)" by (auto simp: integral_iff)
  with assms(1) have "c @ CHR ''/'' # show_int n = d @ CHR ''/'' # show_int m" by (simp add: RuleKey_def)
  with append_slash_inject [OF this] nm show ?thesis by (simp add: slash_not_digit)
qed

lemma Validate_integral:
  assumes "Validate p = None" "r \<in> set (kp_Rules p)"
  shows "integral (ru_Precision r)"
proof -
  have "validate_rules seen rs = None \<Longrightarrow> r \<in> set rs \<Longrightarrow> integral (ru_Precision r)" for seen rs
  proof (induction seen rs rule: validate_rules.induct)
    case (2 seen r' rs)
    show ?case
    proof (cases "r = r'")
      case True
      with "2.prems"(1) obtain x where x: "ru_Precision r = Fin x" "1 \<le> x" "of_int (rat_trunc x) = x"
        by (cases "ru_Precision r") (auto simp: IsNaN_def IsInf_def split: if_splits option.splits)
      then show ?thesis by (simp add: integral_def rat_trunc_nonneg)
    next
      case False
      with 2 show ?thesis by (auto split: if_splits option.splits)
    qed
  qed simp
  with assms show ?thesis by (auto simp: Validate_def split: if_splits)
qed

lemma intersect_rules_origin:
  "meet_rules a bs = Inr rs \<Longrightarrow> r \<in> set rs \<Longrightarrow>
   ru_Currency r = ru_Currency a \<and> ru_Precision r = ru_Precision a \<and> (\<exists>b \<in> set bs. rule_key b = rule_key r)"
proof (induction a bs arbitrary: rs rule: meet_rules.induct)
  case (2 a b bs)
  show ?case
  proof (cases "rule_key a = rule_key b")
    case False
    with 2 show ?thesis by auto
  next
    case True
    with "2.prems"(1) obtain mx dl ap rs' where run: "minimum (ru_MaxTransaction a) (ru_MaxTransaction b) = Inr mx"
      "minimum (ru_DailyLimit a) (ru_DailyLimit b) = Inr dl" "minimum (ru_ApprovalAbove a) (ru_ApprovalAbove b) = Inr ap"
      "meet_rules (a\<lparr>ru_MaxTransaction := mx, ru_DailyLimit := dl, ru_ApprovalAbove := ap\<rparr>) bs = Inr rs'"
      "rs = a\<lparr>ru_MaxTransaction := mx, ru_DailyLimit := dl, ru_ApprovalAbove := ap\<rparr> # rs'"
      by (auto simp: bindE_Inr_iff Let_def)
    then consider "r = a\<lparr>ru_MaxTransaction := mx, ru_DailyLimit := dl, ru_ApprovalAbove := ap\<rparr>" | "r \<in> set rs'"
      using "2.prems"(2) by auto
    then show ?thesis
    proof cases
      case 1
      with True show ?thesis by (auto simp: rule_key_def)
    next
      case old: 2
      have "ru_Currency r = ru_Currency a \<and> ru_Precision r = ru_Precision a \<and> (\<exists>b \<in> set bs. rule_key b = rule_key r)"
        using "2.IH"(2) [OF _ refl run(4) old] True by simp
      then show ?thesis by auto
    qed
  qed
qed simp

lemma intersect_rules_origins:
  assumes "intersect_rules as bs = Inr rs" "r \<in> set rs"
  shows "\<exists>a \<in> set as. ru_Currency r = ru_Currency a \<and> ru_Precision r = ru_Precision a"
    and "\<exists>b \<in> set bs. rule_key b = rule_key r"
  using assms
proof (induction as arbitrary: rs)
  case (Cons a as)
  {
    case 1
    then obtain r1 r2 where "meet_rules a bs = Inr r1" "intersect_rules as bs = Inr r2" "rs = r1 @ r2"
      by (auto simp: bindE_Inr_iff)
    with 1 Cons.IH(1) [of r2] intersect_rules_origin [of a bs r1 r] show ?case by auto
  next
    case 2
    then obtain r1 r2 where "meet_rules a bs = Inr r1" "intersect_rules as bs = Inr r2" "rs = r1 @ r2"
      by (auto simp: bindE_Inr_iff)
    with 2 Cons.IH(2) [of r2] intersect_rules_origin [of a bs r1 r] show ?case by auto
  }
qed simp_all

lemma narrow_rules: "narrow p (tally key p res) = Inr q \<Longrightarrow> intersect_rules (kp_Rules res) (kp_Rules p) = Inr (kp_Rules q)"
  by (auto simp: narrow_def bindE_Inr_iff tally_def Let_def split_beta)

lemma intersect_loop_rules:
  assumes "intersect_loop key ps res = Inr q" "r \<in> set (kp_Rules q)"
  shows "(\<exists>a \<in> set (kp_Rules res). ru_Currency r = ru_Currency a \<and> ru_Precision r = ru_Precision a) \<and>
    (\<forall>p \<in> set ps. \<exists>b \<in> set (kp_Rules p). rule_key b = rule_key r)"
  using assms
proof (induction ps arbitrary: res)
  case (Cons p ps)
  then obtain q1 where q1: "narrow p (tally key p res) = Inr q1" "intersect_loop key ps q1 = Inr q"
    by (auto simp: bindE_Inr_iff)
  from Cons.IH [OF q1(2) Cons.prems(2)] obtain a where a: "a \<in> set (kp_Rules q1)" "ru_Currency r = ru_Currency a"
    "ru_Precision r = ru_Precision a" and rest: "\<forall>p \<in> set ps. \<exists>b \<in> set (kp_Rules p). rule_key b = rule_key r" by blast
  from a(2,3) have "rule_key r = rule_key a" by (simp add: rule_key_def)
  with intersect_rules_origins [OF narrow_rules [OF q1(1)] a(1)] a(2,3) rest show ?case by auto
qed auto

lemma Intersect_rules:
  assumes "Intersect key ps = Inr (Some q)" "r \<in> set (kp_Rules q)"
  shows "\<exists>p \<in> set ps. \<exists>a \<in> set (kp_Rules p). ru_Currency r = ru_Currency a \<and> ru_Precision r = ru_Precision a"
    and "\<forall>p \<in> set ps. \<exists>b \<in> set (kp_Rules p). rule_key b = rule_key r"
proof -
  from assms(1) obtain p ps' where ps: "ps = p # ps'" by (cases ps) auto
  with assms(1) obtain res where run: "intersect_loop key ps' (tally key p (p\<lparr>kp_APIKeyID := key, kp_Version := 0, kp_InheritedFrom := []\<rparr>)) = Inr res"
    and q: "q = (if kp_Rules res = [] then res\<lparr>kp_DenyAll := True\<rparr> else res)" by (auto simp: bindE_Inr_iff)
  from q assms(2) have "r \<in> set (kp_Rules res)" by (auto split: if_splits)
  from intersect_loop_rules [OF run this] obtain a where a: "a \<in> set (kp_Rules p)" "ru_Currency r = ru_Currency a"
    "ru_Precision r = ru_Precision a" "\<forall>p \<in> set ps'. \<exists>b \<in> set (kp_Rules p). rule_key b = rule_key r" by (auto simp: tally_def)
  then show "\<exists>p \<in> set ps. \<exists>a \<in> set (kp_Rules p). ru_Currency r = ru_Currency a \<and> ru_Precision r = ru_Precision a" by (auto simp: ps)
  from a have "rule_key a = rule_key r" by (simp add: rule_key_def)
  with a show "\<forall>p \<in> set ps. \<exists>b \<in> set (kp_Rules p). rule_key b = rule_key r" by (auto simp: ps)
qed

lemma filter_key: "distinct (map rule_key bs) \<Longrightarrow>
  map rule_key (filter (\<lambda>b. rule_key b = x) bs) = (if x \<in> rule_key ` set bs then [x] else [])"
  by (induction bs) auto

lemma intersect_rules_keys:
  assumes "list_all limits_ok as" "rules_ok bs" "intersect_rules as bs = Inr rs"
  shows "map rule_key rs = filter (\<lambda>k. k \<in> rule_key ` set bs) (map rule_key as)" "list_all limits_ok rs"
proof -
  from intersect_rules_ok [OF assms(1,2)] assms(3)
  have rs: "rs = concat (map (\<lambda>a. map (meet a) (filter (\<lambda>b. rule_key b = rule_key a) bs)) as)" by simp
  have one: "map rule_key (map (meet a) (filter (\<lambda>b. rule_key b = rule_key a) bs)) = (if rule_key a \<in> rule_key ` set bs then [rule_key a] else [])" for a
  proof -
    have "map rule_key (map (meet a) (filter (\<lambda>b. rule_key b = rule_key a) bs)) = map rule_key (filter (\<lambda>b. rule_key b = rule_key a) bs)" by simp
    with filter_key [of bs "rule_key a"] assms(2) show ?thesis by (simp only: rules_ok_def)
  qed
  show "map rule_key rs = filter (\<lambda>k. k \<in> rule_key ` set bs) (map rule_key as)"
    unfolding rs by (induction as) (simp_all add: one del: map_map)
  obtain rs' where "intersect_rules as bs = Inr rs'" "list_all limits_ok rs'"
    by (rule intersect_rules_meaning [OF assms(1,2)]) (rule that)
  with assms(3) show "list_all limits_ok rs" by simp
qed

lemma intersect_loop_distinct:
  assumes "list_all limits_ok (kp_Rules res)" "distinct (map rule_key (kp_Rules res))" "\<forall>p \<in> set ps. rules_ok (kp_Rules p)"
    and "intersect_loop key ps res = Inr q"
  shows "distinct (map rule_key (kp_Rules q))"
  using assms
proof (induction ps arbitrary: res)
  case (Cons p ps)
  then obtain q1 where q1: "narrow p (tally key p res) = Inr q1" "intersect_loop key ps q1 = Inr q"
    by (auto simp: bindE_Inr_iff)
  note keys = intersect_rules_keys [OF Cons.prems(1) _ narrow_rules [OF q1(1)]]
  show ?case by (rule Cons.IH [OF _ _ _ q1(2)]) (use keys Cons.prems(2,3) in auto)
qed simp

lemma Intersect_distinct:
  assumes "Intersect key ps = Inr (Some q)" "\<forall>p \<in> set ps. rules_ok (kp_Rules p)"
  shows "distinct (map rule_key (kp_Rules q))"
proof -
  from assms(1) obtain p ps' where ps: "ps = p # ps'" by (cases ps) auto
  with assms(1) obtain res where run: "intersect_loop key ps' (tally key p (p\<lparr>kp_APIKeyID := key, kp_Version := 0, kp_InheritedFrom := []\<rparr>)) = Inr res"
    and q: "q = (if kp_Rules res = [] then res\<lparr>kp_DenyAll := True\<rparr> else res)" by (auto simp: bindE_Inr_iff)
  from intersect_loop_distinct [OF _ _ _ run] assms(2) have "distinct (map rule_key (kp_Rules res))"
    by (simp add: ps tally_def rules_ok_def)
  with q show ?thesis by (simp split: if_splits)
qed

lemma rule_map_Some: "map_of (rule_map rs) k = Some r \<Longrightarrow> r \<in> set rs \<and> rule_key r = k"
proof -
  have "map_of (fold (\<lambda>r m. AList.update (rule_key r) r m) rs m) k = Some r \<Longrightarrow>
    (r \<in> set rs \<and> rule_key r = k) \<or> map_of m k = Some r" for m
    by (induction rs arbitrary: m) (fastforce simp: update_conv split: if_splits)+
  from this [of "[]"] show "map_of (rule_map rs) k = Some r \<Longrightarrow> ?thesis" by (simp add: rule_map_def)
qed

lemma rule_map_None: "map_of (rule_map rs) k = None \<longleftrightarrow> k \<notin> rule_key ` set rs"
proof -
  have "map_of (fold (\<lambda>r m. AList.update (rule_key r) r m) rs m) k = None \<longleftrightarrow> k \<notin> rule_key ` set rs \<and> map_of m k = None" for m
    by (induction rs arbitrary: m) (auto simp: update_conv split: if_splits)
  from this [of "[]"] show ?thesis by (simp add: rule_map_def)
qed

text \<open>In a validated rule list the rule of a key is the only one with it.\<close>

lemma rule_map_valid: "rules_ok rs \<Longrightarrow> r \<in> set rs \<Longrightarrow> rule_at (rule_map rs) (rule_key r) = r"
proof -
  assume ok: "rules_ok rs" "r \<in> set rs"
  then have "map_of (rule_map rs) (rule_key r) \<noteq> None" by (auto simp: rule_map_None)
  then obtain r' where r': "map_of (rule_map rs) (rule_key r) = Some r'" by auto
  from rule_map_Some [OF this] ok have "r' = r" by (auto simp: rules_ok_def distinct_map inj_on_def)
  with r' show ?thesis by (simp add: rule_at_def)
qed

subsection \<open>Charging\<close>

lemma usage_at_update: "usage_at (db\<lparr>pd_usage := AList.update k n (pd_usage db)\<rparr>) j = (if j = k then n else usage_at db j)"
  by (simp add: usage_at_def update_conv)

lemma exceeds_False: "exceeds n s = Inr False \<Longrightarrow> under s n"
  by (auto simp: exceeds_def under_def int_ptr_def bindE_Inr_iff split: if_splits sum.splits)

lemma charge_Inr:
  assumes "charge key day r n db = Inr db'"
  shows "db' = db\<lparr>pd_usage := AList.update (key, ru_Currency r, ru_Precision r, day) (usage_at db (key, ru_Currency r, ru_Precision r, day) + n) (pd_usage db)\<rparr>"
    "under (ru_DailyLimit r) (usage_at db (key, ru_Currency r, ru_Precision r, day) + n)"
  using assms exceeds_False by (auto simp: charge_def Let_def bindE_Inr_iff split: if_splits)

definition charged :: "string \<Rightarrow> time \<Rightarrow> (string \<times> SpendingRule) list \<Rightarrow> (string \<times> int) list \<Rightarrow> string list \<Rightarrow> usage_key \<Rightarrow> int" where
  "charged key day rules totals ks uk =
     sum_list (map (\<lambda>k. if uk = (key, ru_Currency (rule_at rules k), ru_Precision (rule_at rules k), day) then total_at totals k else 0) ks)"

lemma charge_keys_Inr:
  assumes "charge_keys key day rules totals ks db = Inr db'"
  shows "\<exists>us. db' = db\<lparr>pd_usage := us\<rparr> \<and> fst ` set (pd_usage db) \<subseteq> fst ` set us \<and>
    (\<forall>k \<in> set ks. (key, ru_Currency (rule_at rules k), ru_Precision (rule_at rules k), day) \<in> fst ` set us) \<and>
    (\<forall>uk. usage_at db' uk = usage_at db uk + charged key day rules totals ks uk)"
  using assms
proof (induction ks arbitrary: db)
  case Nil
  then show ?case by (auto simp: charged_def intro: exI [of _ "pd_usage db"])
next
  case (Cons k ks)
  let ?r = "rule_at rules k"
  let ?uk = "(key, ru_Currency ?r, ru_Precision ?r, day)"
  from Cons.prems obtain db1 where c: "charge key day ?r (total_at totals k) db = Inr db1"
    and rest: "charge_keys key day rules totals ks db1 = Inr db'" by (auto simp: bindE_Inr_iff)
  note db1 = charge_Inr(1) [OF c]
  from Cons.IH [OF rest] obtain us where us: "db' = db1\<lparr>pd_usage := us\<rparr>" "fst ` set (pd_usage db1) \<subseteq> fst ` set us"
    "\<forall>k \<in> set ks. (key, ru_Currency (rule_at rules k), ru_Precision (rule_at rules k), day) \<in> fst ` set us"
    "\<forall>uk. usage_at db' uk = usage_at db1 uk + charged key day rules totals ks uk" by blast
  have dom: "fst ` set (pd_usage db1) = insert ?uk (fst ` set (pd_usage db))" by (simp add: db1 dom_update)
  have "usage_at db' uk = usage_at db uk + charged key day rules totals (k # ks) uk" for uk
    using us(4) [rule_format, of uk] by (simp add: charged_def db1 usage_at_update)
  moreover have "db' = db\<lparr>pd_usage := us\<rparr>" by (simp add: us(1) db1)
  ultimately show ?case using us(2,3) dom by (intro exI [of _ us]) auto
qed

definition charged_all :: "time \<Rightarrow> (string \<times> int) list \<Rightarrow> string list \<Rightarrow> KeyPolicy list \<Rightarrow> usage_key \<Rightarrow> int" where
  "charged_all day totals ks as uk =
     sum_list (map (\<lambda>a. charged (kp_APIKeyID a) day (rule_map (kp_Rules a)) totals ks uk) as)"

lemma charge_ancestors_Inr:
  assumes "charge_ancestors day totals ks as db = Inr db'"
  shows "\<exists>us. db' = db\<lparr>pd_usage := us\<rparr> \<and> fst ` set (pd_usage db) \<subseteq> fst ` set us \<and>
    (\<forall>a \<in> set as. \<forall>k \<in> set ks. (kp_APIKeyID a, ru_Currency (rule_at (rule_map (kp_Rules a)) k),
        ru_Precision (rule_at (rule_map (kp_Rules a)) k), day) \<in> fst ` set us) \<and>
    (\<forall>uk. usage_at db' uk = usage_at db uk + charged_all day totals ks as uk)"
  using assms
proof (induction as arbitrary: db)
  case Nil
  then show ?case by (auto simp: charged_all_def intro: exI [of _ "pd_usage db"])
next
  case (Cons a as)
  from Cons.prems obtain db1 where c: "charge_keys (kp_APIKeyID a) day (rule_map (kp_Rules a)) totals ks db = Inr db1"
    and rest: "charge_ancestors day totals ks as db1 = Inr db'" by (auto simp: bindE_Inr_iff)
  from charge_keys_Inr [OF c] obtain us1 where us1: "db1 = db\<lparr>pd_usage := us1\<rparr>" "fst ` set (pd_usage db) \<subseteq> fst ` set us1"
    "\<forall>k \<in> set ks. (kp_APIKeyID a, ru_Currency (rule_at (rule_map (kp_Rules a)) k),
        ru_Precision (rule_at (rule_map (kp_Rules a)) k), day) \<in> fst ` set us1"
    "\<forall>uk. usage_at db1 uk = usage_at db uk + charged (kp_APIKeyID a) day (rule_map (kp_Rules a)) totals ks uk" by blast
  from Cons.IH [OF rest] obtain us where us: "db' = db1\<lparr>pd_usage := us\<rparr>" "fst ` set (pd_usage db1) \<subseteq> fst ` set us"
    "\<forall>a \<in> set as. \<forall>k \<in> set ks. (kp_APIKeyID a, ru_Currency (rule_at (rule_map (kp_Rules a)) k),
        ru_Precision (rule_at (rule_map (kp_Rules a)) k), day) \<in> fst ` set us"
    "\<forall>uk. usage_at db' uk = usage_at db1 uk + charged_all day totals ks as uk" by blast
  have "usage_at db' uk = usage_at db uk + charged_all day totals ks (a # as) uk" for uk
    using us(4) [rule_format, of uk] us1(4) [rule_format, of uk] by (simp add: charged_all_def)
  moreover have "db' = db\<lparr>pd_usage := us\<rparr>" by (simp add: us(1) us1(1))
  moreover have sub: "fst ` set us1 \<subseteq> fst ` set us" using us(2) us1(1) by simp
  ultimately show ?case using us(3) us1(2,3) by (intro exI [of _ us]) (auto 0 3)
qed

lemma charged_nonneg: "\<forall>k \<in> set ks. 0 \<le> total_at totals k \<Longrightarrow> 0 \<le> charged key day rules totals ks uk"
  by (induction ks) (auto simp: charged_def)

lemma charged_all_nonneg: "\<forall>k \<in> set ks. 0 \<le> total_at totals k \<Longrightarrow> 0 \<le> charged_all day totals ks as uk"
  by (induction as) (auto simp: charged_all_def charged_nonneg)

text \<open>A limit checked while charging still holds at the end when keys and ancestors are charged
  only once each.\<close>

lemma charge_keys_limit:
  assumes "charge_keys key day rules totals ks db = Inr db'" "k \<in> set ks"
    and once: "\<And>k'. k' \<in> set ks \<Longrightarrow> k' \<noteq> k \<Longrightarrow>
      (ru_Currency (rule_at rules k'), ru_Precision (rule_at rules k')) \<noteq> (ru_Currency (rule_at rules k), ru_Precision (rule_at rules k))"
    and "distinct ks"
  shows "under (ru_DailyLimit (rule_at rules k)) (usage_at db' (key, ru_Currency (rule_at rules k), ru_Precision (rule_at rules k), day))"
  using assms
proof (induction ks arbitrary: db)
  case (Cons j ks)
  let ?uk = "(key, ru_Currency (rule_at rules k), ru_Precision (rule_at rules k), day)"
  from Cons.prems obtain db1 where c: "charge key day (rule_at rules j) (total_at totals j) db = Inr db1"
    and rest: "charge_keys key day rules totals ks db1 = Inr db'" by (auto simp: bindE_Inr_iff)
  show ?case
  proof (cases "j = k")
    case True
    have "charged key day rules totals ks ?uk = 0"
      unfolding charged_def by (rule sum_list_map_zero) (use Cons.prems(3) Cons.prems(4) True in fastforce)
    with charge_keys_Inr [OF rest] have "usage_at db' ?uk = usage_at db1 ?uk" by auto
    with charge_Inr [OF c] True show ?thesis by (simp add: usage_at_update)
  next
    case False
    with Cons show ?thesis using rest by auto
  qed
qed simp

lemma charge_ancestors_limit:
  assumes "charge_ancestors day totals ks as db = Inr db'" "a \<in> set as" "k \<in> set ks"
    and "\<And>k'. k' \<in> set ks \<Longrightarrow> k' \<noteq> k \<Longrightarrow> (ru_Currency (rule_at (rule_map (kp_Rules a)) k'), ru_Precision (rule_at (rule_map (kp_Rules a)) k')) \<noteq>
      (ru_Currency (rule_at (rule_map (kp_Rules a)) k), ru_Precision (rule_at (rule_map (kp_Rules a)) k))"
    and "distinct ks" "distinct (map kp_APIKeyID as)"
  shows "under (ru_DailyLimit (rule_at (rule_map (kp_Rules a)) k)) (usage_at db' (kp_APIKeyID a,
    ru_Currency (rule_at (rule_map (kp_Rules a)) k), ru_Precision (rule_at (rule_map (kp_Rules a)) k), day))"
  using assms
proof (induction as arbitrary: db)
  case (Cons b as)
  let ?uk = "(kp_APIKeyID a, ru_Currency (rule_at (rule_map (kp_Rules a)) k), ru_Precision (rule_at (rule_map (kp_Rules a)) k), day)"
  from Cons.prems obtain db1 where c: "charge_keys (kp_APIKeyID b) day (rule_map (kp_Rules b)) totals ks db = Inr db1"
    and rest: "charge_ancestors day totals ks as db1 = Inr db'" by (auto simp: bindE_Inr_iff)
  show ?case
  proof (cases "a = b")
    case True
    have "charged (kp_APIKeyID a') day (rule_map (kp_Rules a')) totals ks ?uk = 0" if "a' \<in> set as" for a'
      unfolding charged_def by (rule sum_list_map_zero) (use that True Cons.prems(6) in auto)
    then have "charged_all day totals ks as ?uk = 0" unfolding charged_all_def by (rule sum_list_map_zero)
    with charge_ancestors_Inr [OF rest] have "usage_at db' ?uk = usage_at db1 ?uk" by auto
    with charge_keys_limit [OF c Cons.prems(3)] Cons.prems(4,5) True show ?thesis by simp
  next
    case False
    with Cons show ?thesis using rest by auto
  qed
qed simp

subsection \<open>Totals\<close>

definition leg_amount :: "PolicyLeg \<Rightarrow> int" where
  "leg_amount l = (case Integer (pl_Amount l) of Inr n \<Rightarrow> n | Inl e \<Rightarrow> 0)"

text \<open>The total a request moves under one rule key.\<close>

definition key_total :: "string \<Rightarrow> PolicyLeg list \<Rightarrow> int" where
  "key_total k ls = sum_list (map leg_amount (filter (\<lambda>l. leg_key l = k) ls))"

lemma leg_amount_nonneg: "0 \<le> leg_amount l"
  by (auto simp: leg_amount_def Integer_Inr split: sum.splits)

lemma key_total_nonneg: "0 \<le> key_total k ls"
  unfolding key_total_def by (rule sum_list_nonneg) (auto simp: leg_amount_nonneg)

lemma total_at_update: "total_at (AList.update j n m) k = (if k = j then n else total_at m k)"
  by (simp add: total_at_def update_conv)

lemma total_legs_Inr:
  assumes "total_legs p rules legs totals = Inr totals'"
  shows "total_at totals' k = total_at totals k + key_total k legs"
    "fst ` set totals' = fst ` set totals \<union> leg_key ` set legs"
    "distinct (map fst totals) \<Longrightarrow> distinct (map fst totals')"
    "l \<in> set legs \<Longrightarrow> map_of rules (leg_key l) \<noteq> None \<and> (\<exists>n. Integer (pl_Amount l) = Inr n) \<and>
       Allowed (kp_BalanceIDs p) (pl_Source l) \<and> Allowed (kp_BalanceIDs p) (pl_Destination l) \<and>
       Allowed (kp_LedgerIDs p) (pl_SourceLedger l) \<and> Allowed (kp_LedgerIDs p) (pl_DestinationLedger l)"
  using assms
proof (induction legs arbitrary: totals)
  case (Cons x xs)
  have step: "\<exists>n. Integer (pl_Amount x) = Inr n \<and> map_of rules (leg_key x) \<noteq> None \<and>
      Allowed (kp_BalanceIDs p) (pl_Source x) \<and> Allowed (kp_BalanceIDs p) (pl_Destination x) \<and>
      Allowed (kp_LedgerIDs p) (pl_SourceLedger x) \<and> Allowed (kp_LedgerIDs p) (pl_DestinationLedger x) \<and>
      total_legs p rules xs (AList.update (leg_key x) (total_at totals (leg_key x) + n) totals) = Inr totals'"
    if "total_legs p rules (x # xs) totals = Inr totals'" for totals using that by (auto simp: bindE_Inr_iff split: if_splits)
  {
    case 1
    from step [OF this] obtain n where n: "Integer (pl_Amount x) = Inr n" and
      rest: "total_legs p rules xs (AList.update (leg_key x) (total_at totals (leg_key x) + n) totals) = Inr totals'" by blast
    from Cons.IH(1) [OF rest] n show ?case by (simp add: key_total_def total_at_update leg_amount_def)
  next
    case 2
    from step [OF this] obtain n where
      rest: "total_legs p rules xs (AList.update (leg_key x) (total_at totals (leg_key x) + n) totals) = Inr totals'" by blast
    from Cons.IH(2) [OF rest] show ?case by (auto simp: dom_update)
  next
    case 3
    from step [OF 3(2)] obtain n where
      rest: "total_legs p rules xs (AList.update (leg_key x) (total_at totals (leg_key x) + n) totals) = Inr totals'" by blast
    show ?case by (rule Cons.IH(3) [OF _ rest]) (rule distinct_update [OF 3(1)])
  next
    case 4
    from step [OF 4(2)] obtain n where n: "Integer (pl_Amount x) = Inr n" "map_of rules (leg_key x) \<noteq> None"
      "Allowed (kp_BalanceIDs p) (pl_Source x)" "Allowed (kp_BalanceIDs p) (pl_Destination x)"
      "Allowed (kp_LedgerIDs p) (pl_SourceLedger x)" "Allowed (kp_LedgerIDs p) (pl_DestinationLedger x)"
      and rest: "total_legs p rules xs (AList.update (leg_key x) (total_at totals (leg_key x) + n) totals) = Inr totals'" by blast
    show ?case
    proof (cases "l = x")
      case False
      with 4(1) have "l \<in> set xs" by simp
      from Cons.IH(4) [OF this rest] show ?thesis .
    qed (use n in simp)
  }
qed (simp_all add: key_total_def)

lemma check_totals_Inr:
  assumes "check_totals rules totals ks d = Inr d'" "\<And>k. k \<in> set ks \<Longrightarrow> limits_ok (rule_at rules k)"
  shows "\<forall>k \<in> set ks. under (ru_MaxTransaction (rule_at rules k)) (total_at totals k)"
    and "d' = (if \<exists>k \<in> set ks. \<not> under (ru_ApprovalAbove (rule_at rules k)) (total_at totals k) then ''pending'' else d)"
proof -
  have ex: "exceeds n s = Inr b \<Longrightarrow> limit_ok s \<Longrightarrow> b \<longleftrightarrow> \<not> under s n" for n s b
    by (auto simp: exceeds_def under_def int_ptr_def limit_ok_def Integer_show_int split: if_splits)
  have "(\<forall>k \<in> set ks. under (ru_MaxTransaction (rule_at rules k)) (total_at totals k)) \<and>
    d' = (if \<exists>k \<in> set ks. \<not> under (ru_ApprovalAbove (rule_at rules k)) (total_at totals k) then ''pending'' else d)"
    using assms
  proof (induction ks arbitrary: d)
    case (Cons k ks)
    from Cons.prems(1) obtain ask where run: "exceeds (total_at totals k) (ru_MaxTransaction (rule_at rules k)) = Inr False"
      "exceeds (total_at totals k) (ru_ApprovalAbove (rule_at rules k)) = Inr ask"
      "check_totals rules totals ks (if ask then ''pending'' else d) = Inr d'" by (auto simp: bindE_Inr_iff split: if_splits)
    from Cons.prems(2) [of k] have "limits_ok (rule_at rules k)" by simp
    with ex [OF run(1)] ex [OF run(2)] have "under (ru_MaxTransaction (rule_at rules k)) (total_at totals k)"
      "ask \<longleftrightarrow> \<not> under (ru_ApprovalAbove (rule_at rules k)) (total_at totals k)" by (simp_all add: limits_ok_def)
    with Cons.IH [OF run(3)] Cons.prems(2) show ?case by auto
  qed simp
  then show "\<forall>k \<in> set ks. under (ru_MaxTransaction (rule_at rules k)) (total_at totals k)"
    "d' = (if \<exists>k \<in> set ks. \<not> under (ru_ApprovalAbove (rule_at rules k)) (total_at totals k) then ''pending'' else d)" by blast+
qed

subsection \<open>Inserts\<close>

lemma insert_admission_Inr:
  "insert_admission a f db = Inr db' \<Longrightarrow>
   db' = db\<lparr>pd_admissions := pd_admissions db @ [\<lparr>ar_admission = a, ar_fingerprint = f\<rparr>]\<rparr> \<and>
   pa_ID a \<notin> (\<lambda>r. pa_ID (ar_admission r)) ` set (pd_admissions db)"
  by (auto simp: insert_admission_def list_ex_iff split: if_splits)

lemma insert_budgets_Inr: "insert_budgets bs db = Inr db' \<Longrightarrow> db' = db\<lparr>pd_budgets := pd_budgets db @ bs\<rparr>"
proof (induction bs arbitrary: db)
  case (Cons b bs)
  then have "insert_budgets bs (db\<lparr>pd_budgets := pd_budgets db @ [b]\<rparr>) = Inr db'" by (simp split: if_splits)
  from Cons.IH [OF this] show ?case by simp
qed simp

lemma insert_bindings_Inr:
  "insert_bindings bs db = Inr db' \<Longrightarrow> db' = db\<lparr>pd_bindings := pd_bindings db @ bs\<rparr> \<and>
     (distinct (map bd_reference (pd_bindings db)) \<longrightarrow> distinct (map bd_reference (pd_bindings db')))"
proof (induction bs arbitrary: db)
  case (Cons b bs)
  then have run: "insert_bindings bs (db\<lparr>pd_bindings := pd_bindings db @ [b]\<rparr>) = Inr db'"
    and new: "\<not> list_ex (\<lambda>c. bd_reference c = bd_reference b) (pd_bindings db)" by (simp_all split: if_splits)
  from new have "bd_reference b \<notin> bd_reference ` set (pd_bindings db)" by (auto simp: list_ex_iff)
  then have "distinct (map bd_reference (pd_bindings db)) \<longrightarrow> distinct (map bd_reference (pd_bindings db'))"
    using conjunct2 [OF Cons.IH [OF run]] by simp
  with conjunct1 [OF Cons.IH [OF run]] show ?case by simp
qed simp

subsection \<open>The accounting invariant\<close>

text \<open>
  What an admission still holds of one currency, and what a usage row should show: the
  unreleased amounts of all admissions that charge it.
\<close>

definition unreleased :: "policy_db \<Rightarrow> string \<Rightarrow> string \<Rightarrow> float64 \<Rightarrow> int" where
  "unreleased db adm c p = sum_list (map (\<lambda>b. if bd_admission_id b = adm \<and> bd_currency b = c \<and> bd_precision b = p
     then bd_amount b - bd_released b else 0) (pd_bindings db))"

definition outstanding :: "policy_db \<Rightarrow> usage_key \<Rightarrow> int" where
  "outstanding db uk = sum_list (map (\<lambda>g. if budget_key g = uk
     then unreleased db (bg_admission_id g) (bg_currency g) (bg_precision g) else 0) (pd_budgets db))"

abbreviation admission_ids :: "policy_db \<Rightarrow> string set" where
  "admission_ids db \<equiv> (\<lambda>r. pa_ID (ar_admission r)) ` set (pd_admissions db)"

definition policies_ok :: "policy_db \<Rightarrow> bool" where
  "policies_ok db = (\<forall>(k, r) \<in> set (pd_policies db). Validate (kr_document r) = None)"

definition bindings_ok :: "policy_db \<Rightarrow> bool" where
  "bindings_ok db = (distinct (map bd_reference (pd_bindings db)) \<and>
     (\<forall>b \<in> set (pd_bindings db). bd_admission_id b \<in> admission_ids db \<and> 0 \<le> bd_released b \<and> bd_released b \<le> bd_amount b))"

definition budgets_ok :: "policy_db \<Rightarrow> bool" where
  "budgets_ok db = (\<forall>g \<in> set (pd_budgets db). bg_admission_id g \<in> admission_ids db \<and> budget_key g \<in> fst ` set (pd_usage db))"

definition usage_ok :: "policy_db \<Rightarrow> bool" where
  "usage_ok db = (\<forall>uk. usage_at db uk = outstanding db uk)"

definition policy_ok :: "policy_db \<Rightarrow> bool" where
  "policy_ok db = (policies_ok db \<and> bindings_ok db \<and> budgets_ok db \<and> usage_ok db)"

lemma unreleased_nonneg: "bindings_ok db \<Longrightarrow> 0 \<le> unreleased db adm c p"
  unfolding unreleased_def by (rule sum_list_nonneg) (auto simp: bindings_ok_def)

lemma outstanding_nonneg: "bindings_ok db \<Longrightarrow> 0 \<le> outstanding db uk"
  unfolding outstanding_def by (rule sum_list_nonneg) (auto simp: unreleased_nonneg)

lemma Validate_relabel [simp]: "Validate (p\<lparr>kp_APIKeyID := k, kp_Version := v\<rparr>) = Validate p"
  "Validate (p\<lparr>kp_InheritedFrom := f\<rparr>) = Validate p"
  by (simp_all add: Validate_def)

lemma ancestorPolicies_valid: "policies_ok db \<Longrightarrow> p \<in> set (ancestorPolicies db ids) \<Longrightarrow> Validate p = None"
  by (auto simp: ancestorPolicies_def policies_ok_def split: option.splits if_splits dest!: sym [of "Some _"] map_of_SomeD)

lemma ancestorPolicies_ids: "p \<in> set (ancestorPolicies db ids) \<Longrightarrow> kp_APIKeyID p \<in> set ids"
  by (auto simp: ancestorPolicies_def split: option.splits if_splits)

lemma ancestorPolicies_distinct: "distinct ids \<Longrightarrow> distinct (map kp_APIKeyID (ancestorPolicies db ids))"
proof (induction ids)
  case (Cons i ids)
  then have "i \<notin> kp_APIKeyID ` set (ancestorPolicies db ids)" using ancestorPolicies_ids by fastforce
  with Cons show ?case by (auto simp: ancestorPolicies_def split: option.splits)
qed (simp add: ancestorPolicies_def)

subsection \<open>A new admission\<close>

lemma admit_new_Inr:
  assumes "admit_new now newid key identity legs fp policies p db = Inr (db', a)"
  obtains totals decision us where
    "total_legs p (rule_map (kp_Rules p)) legs [] = Inr totals" "legs \<noteq> []"
    "check_totals (rule_map (kp_Rules p)) totals (sort (map fst totals)) ''not_required'' = Inr decision"
    "charge_ancestors (utc_day now) totals (sort (map fst totals)) (sort_key kp_APIKeyID policies) db = Inr (db\<lparr>pd_usage := us\<rparr>)"
    "a = \<lparr>pa_ID = newid, pa_APIKeyID = key, pa_Identity = identity, pa_Version = kp_Version p,
          pa_Day = utc_day now, pa_Decision = decision, pa_DecidedBy = [], pa_Legs = legs\<rparr>"
    "db' = db\<lparr>pd_usage := us, pd_admissions := pd_admissions db @ [\<lparr>ar_admission = a, ar_fingerprint = fp\<rparr>],
       pd_budgets := pd_budgets db @ admission_budgets newid (utc_day now) (rule_map (kp_Rules p)) totals (sort (map fst totals)) (sort_key kp_APIKeyID policies),
       pd_bindings := pd_bindings db @ map (leg_binding newid) legs\<rparr>"
    "newid \<notin> admission_ids db"
    "distinct (map bd_reference (pd_bindings db)) \<Longrightarrow> distinct (map bd_reference (pd_bindings db'))"
proof -
  let ?rules = "rule_map (kp_Rules p)"
  from assms obtain totals decision db1 db2 db3 where t: "total_legs p ?rules legs [] = Inr totals" "legs \<noteq> []"
    and ch: "check_totals ?rules totals (sort (map fst totals)) ''not_required'' = Inr decision"
    and charge: "charge_ancestors (utc_day now) totals (sort (map fst totals)) (sort_key kp_APIKeyID policies) db = Inr db1"
    and a: "a = \<lparr>pa_ID = newid, pa_APIKeyID = key, pa_Identity = identity, pa_Version = kp_Version p,
          pa_Day = utc_day now, pa_Decision = decision, pa_DecidedBy = [], pa_Legs = legs\<rparr>"
    and ins: "insert_admission a fp db1 = Inr db2"
      "insert_budgets (admission_budgets newid (utc_day now) ?rules totals (sort (map fst totals)) (sort_key kp_APIKeyID policies)) db2 = Inr db3"
      "insert_bindings (map (leg_binding newid) legs) db3 = Inr db'"
    unfolding admit_new_def Let_def by (auto simp: bindE_Inr_iff split: if_splits)
  from charge_ancestors_Inr [OF charge] obtain us where us: "db1 = db\<lparr>pd_usage := us\<rparr>" by blast
  note i1 = insert_admission_Inr [OF ins(1)] and i2 = insert_budgets_Inr [OF ins(2)] and i3 = insert_bindings_Inr [OF ins(3)]
  show ?thesis
  proof (rule that [OF t ch _ a])
    show "charge_ancestors (utc_day now) totals (sort (map fst totals)) (sort_key kp_APIKeyID policies) db = Inr (db\<lparr>pd_usage := us\<rparr>)"
      using charge us by simp
    show "db' = db\<lparr>pd_usage := us, pd_admissions := pd_admissions db @ [\<lparr>ar_admission = a, ar_fingerprint = fp\<rparr>],
       pd_budgets := pd_budgets db @ admission_budgets newid (utc_day now) ?rules totals (sort (map fst totals)) (sort_key kp_APIKeyID policies),
       pd_bindings := pd_bindings db @ map (leg_binding newid) legs\<rparr>"
      using i1 i2 i3 us by simp
    show "newid \<notin> admission_ids db" using i1 us a by simp
    show "distinct (map bd_reference (pd_bindings db)) \<Longrightarrow> distinct (map bd_reference (pd_bindings db'))"
      using conjunct2 [OF i3] conjunct1 [OF i1] i2 us by simp
  qed
qed

text \<open>The rules of one key agree on currency and precision across the request, the effective
  policy and every ancestor.\<close>

lemma rule_pair: "rule_key r = rule_key s \<Longrightarrow> integral (ru_Precision r) \<Longrightarrow> integral (ru_Precision s) \<Longrightarrow>
  ru_Currency r = ru_Currency s \<and> ru_Precision r = ru_Precision s"
  by (rule RuleKey_inject) (simp_all add: rule_key_def)

lemma leg_pair: "rule_key r = leg_key l \<Longrightarrow> integral (ru_Precision r) \<Longrightarrow> integral (pl_Precision l) \<Longrightarrow>
  ru_Currency r = pl_Currency l \<and> ru_Precision r = pl_Precision l"
  by (rule RuleKey_inject) (simp_all add: rule_key_def leg_key_def)

lemma effective_rule:
  assumes "Intersect key ps = Inr (Some p)" "\<forall>b \<in> set ps. Validate b = None"
    and "map_of (rule_map (kp_Rules p)) k \<noteq> None"
  shows "rule_key (rule_at (rule_map (kp_Rules p)) k) = k" "rule_at (rule_map (kp_Rules p)) k \<in> set (kp_Rules p)"
    and "integral (ru_Precision (rule_at (rule_map (kp_Rules p)) k))"
    and "b \<in> set ps \<Longrightarrow> rule_at (rule_map (kp_Rules b)) k \<in> set (kp_Rules b) \<and> rule_key (rule_at (rule_map (kp_Rules b)) k) = k \<and>
      ru_Currency (rule_at (rule_map (kp_Rules b)) k) = ru_Currency (rule_at (rule_map (kp_Rules p)) k) \<and>
      ru_Precision (rule_at (rule_map (kp_Rules b)) k) = ru_Precision (rule_at (rule_map (kp_Rules p)) k)"
proof -
  from assms(3) obtain r where r: "map_of (rule_map (kp_Rules p)) k = Some r" by auto
  note rS = rule_map_Some [OF r]
  have at: "rule_at (rule_map (kp_Rules p)) k = r" by (simp add: rule_at_def r)
  show "rule_key (rule_at (rule_map (kp_Rules p)) k) = k" "rule_at (rule_map (kp_Rules p)) k \<in> set (kp_Rules p)"
    using rS by (simp_all add: at)
  from Intersect_rules(1) [OF assms(1) conjunct1 [OF rS]] assms(2) Validate_integral have int_r: "integral (ru_Precision r)"
    by fastforce
  then show "integral (ru_Precision (rule_at (rule_map (kp_Rules p)) k))" by (simp add: at)
  assume b: "b \<in> set ps"
  from Intersect_rules(2) [OF assms(1) conjunct1 [OF rS]] b rS obtain s0 where "s0 \<in> set (kp_Rules b)" "rule_key s0 = k" by auto
  then have "map_of (rule_map (kp_Rules b)) k \<noteq> None" by (auto simp: rule_map_None)
  then obtain s where s: "map_of (rule_map (kp_Rules b)) k = Some s" by auto
  note sS = rule_map_Some [OF s]
  have "integral (ru_Precision s)" using Validate_integral sS assms(2) b by blast
  with rule_pair [of s r] sS rS int_r have "ru_Currency s = ru_Currency r \<and> ru_Precision s = ru_Precision r" by simp
  with sS show "rule_at (rule_map (kp_Rules b)) k \<in> set (kp_Rules b) \<and> rule_key (rule_at (rule_map (kp_Rules b)) k) = k \<and>
      ru_Currency (rule_at (rule_map (kp_Rules b)) k) = ru_Currency (rule_at (rule_map (kp_Rules p)) k) \<and>
      ru_Precision (rule_at (rule_map (kp_Rules b)) k) = ru_Precision (rule_at (rule_map (kp_Rules p)) k)"
    by (simp add: at rule_at_def [of "rule_map (kp_Rules b)"] s)
qed

lemma charged_cong:
  assumes "\<And>k. k \<in> set ks \<Longrightarrow> ru_Currency (rule_at m k) = ru_Currency (rule_at m' k) \<and> ru_Precision (rule_at m k) = ru_Precision (rule_at m' k)"
  shows "charged key day m totals ks uk = charged key day m' totals ks uk"
  unfolding charged_def by (rule sum_list_map_cong) (simp add: assms)

lemma outstanding_new_budgets:
  assumes "\<And>k. k \<in> set ks \<Longrightarrow> unreleased db adm (ru_Currency (rule_at m k)) (ru_Precision (rule_at m k)) = total_at totals k"
  shows "sum_list (map (\<lambda>g. if budget_key g = uk then unreleased db (bg_admission_id g) (bg_currency g) (bg_precision g) else 0)
      (admission_budgets adm day m totals ks ps)) =
    sum_list (map (\<lambda>a. charged (kp_APIKeyID a) day m totals ks uk) ps)"
proof -
  have inner: "sum_list (map (\<lambda>k. if (kp_APIKeyID a, ru_Currency (rule_at m k), ru_Precision (rule_at m k), day) = uk
      then unreleased db adm (ru_Currency (rule_at m k)) (ru_Precision (rule_at m k)) else 0) ks) =
    charged (kp_APIKeyID a) day m totals ks uk" for a
    unfolding charged_def by (rule sum_list_map_cong) (use assms in auto)
  show ?thesis
    unfolding inner [symmetric] by (simp add: admission_budgets_def sum_list_map_concat budget_key_def comp_def cong: if_cong)
qed

lemma admission_budgets_mem:
  assumes "g \<in> set (admission_budgets adm day m totals ks ps)"
  obtains b k where "b \<in> set ps" "k \<in> set ks" "bg_admission_id g = adm"
    "budget_key g = (kp_APIKeyID b, ru_Currency (rule_at m k), ru_Precision (rule_at m k), day)"
proof -
  from assms obtain b k where "b \<in> set ps" "k \<in> set ks" "g = \<lparr>bg_admission_id = adm, bg_api_key_id = kp_APIKeyID b,
       bg_currency = ru_Currency (rule_at m k), bg_precision = ru_Precision (rule_at m k),
       bg_day = day, bg_amount = total_at totals k\<rparr>" by (auto simp: admission_budgets_def)
  then show thesis by (intro that [of b k]) (simp_all add: budget_key_def)
qed

lemma outstanding_cong:
  assumes "pd_budgets db' = pd_budgets db"
    "\<And>g. g \<in> set (pd_budgets db) \<Longrightarrow> unreleased db' (bg_admission_id g) (bg_currency g) (bg_precision g) =
       unreleased db (bg_admission_id g) (bg_currency g) (bg_precision g)"
  shows "outstanding db' uk = outstanding db uk"
  unfolding outstanding_def assms(1) by (rule sum_list_map_cong) (simp add: assms(2))

lemma unreleased_other: "\<forall>b \<in> set (pd_bindings db). bd_admission_id b \<noteq> adm \<Longrightarrow> unreleased db adm c p = 0"
  unfolding unreleased_def by (rule sum_list_map_zero) auto

lemma leg_binding_sel [simp]:
  "bd_reference (leg_binding adm l) = pl_Reference l" "bd_admission_id (leg_binding adm l) = adm"
  "bd_currency (leg_binding adm l) = pl_Currency l" "bd_precision (leg_binding adm l) = pl_Precision l"
  "bd_amount (leg_binding adm l) = leg_amount l" "bd_released (leg_binding adm l) = 0"
  by (simp_all add: leg_binding_def leg_amount_def)

lemma unreleased_append:
  "pd_bindings db' = pd_bindings db @ map (leg_binding newid) legs \<Longrightarrow>
   unreleased db' adm c p = unreleased db adm c p +
     (if adm = newid then sum_list (map leg_amount (filter (\<lambda>l. pl_Currency l = c \<and> pl_Precision l = p) legs)) else 0)"
proof -
  assume "pd_bindings db' = pd_bindings db @ map (leg_binding newid) legs"
  moreover have "sum_list (map (\<lambda>l. if newid = adm \<and> pl_Currency l = c \<and> pl_Precision l = p then leg_amount l else 0) legs) =
     (if adm = newid then sum_list (map leg_amount (filter (\<lambda>l. pl_Currency l = c \<and> pl_Precision l = p) legs)) else 0)"
    by (induction legs) auto
  ultimately show ?thesis by (simp add: unreleased_def comp_def eq_commute [of newid] cong: if_cong)
qed

lemma admit_new_ok:
  assumes ok: "policy_ok db" and run: "admit_new now newid key identity legs fp policies p db = Inr (db', a)"
    and eff: "Intersect key policies = Inr (Some p)" and valid: "\<forall>b \<in> set policies. Validate b = None"
    and prec: "\<forall>l \<in> set legs. integral (pl_Precision l)"
  shows "policy_ok db'"
  using run
proof (rule admit_new_Inr)
  fix totals :: "(string \<times> int) list" and decision us
  let ?m = "rule_map (kp_Rules p)" and ?ks = "sort (map fst totals)" and ?as = "sort_key kp_APIKeyID policies" and ?day = "utc_day now"
  assume t: "total_legs p ?m legs [] = Inr totals"
    and charge: "charge_ancestors ?day totals ?ks ?as db = Inr (db\<lparr>pd_usage := us\<rparr>)"
    and db': "db' = db\<lparr>pd_usage := us, pd_admissions := pd_admissions db @ [\<lparr>ar_admission = a, ar_fingerprint = fp\<rparr>],
       pd_budgets := pd_budgets db @ admission_budgets newid ?day ?m totals ?ks ?as,
       pd_bindings := pd_bindings db @ map (leg_binding newid) legs\<rparr>"
    and a: "a = \<lparr>pa_ID = newid, pa_APIKeyID = key, pa_Identity = identity, pa_Version = kp_Version p,
          pa_Day = ?day, pa_Decision = decision, pa_DecidedBy = [], pa_Legs = legs\<rparr>"
    and fresh: "newid \<notin> admission_ids db"
    and dist: "distinct (map bd_reference (pd_bindings db)) \<Longrightarrow> distinct (map bd_reference (pd_bindings db'))"
  from total_legs_Inr(2) [OF t] have ks: "set ?ks = leg_key ` set legs" by simp
  have rule: "map_of ?m k \<noteq> None" if "k \<in> set ?ks" for k using that total_legs_Inr(4) [OF t] unfolding ks by blast
  note er = effective_rule [OF eff valid rule]
  from charge_ancestors_Inr [OF charge] obtain us' where us': "db\<lparr>pd_usage := us\<rparr> = db\<lparr>pd_usage := us'\<rparr>"
    "fst ` set (pd_usage db) \<subseteq> fst ` set us'"
    "\<forall>b \<in> set ?as. \<forall>k \<in> set ?ks. (kp_APIKeyID b, ru_Currency (rule_at (rule_map (kp_Rules b)) k),
        ru_Precision (rule_at (rule_map (kp_Rules b)) k), ?day) \<in> fst ` set us'"
    "\<forall>uk. usage_at (db\<lparr>pd_usage := us\<rparr>) uk = usage_at db uk + charged_all ?day totals ?ks ?as uk" by blast
  from arg_cong [OF us'(1), of pd_usage] have "us' = us" by simp
  with us'(2-4) have us: "fst ` set (pd_usage db) \<subseteq> fst ` set us"
    "\<forall>b \<in> set ?as. \<forall>k \<in> set ?ks. (kp_APIKeyID b, ru_Currency (rule_at (rule_map (kp_Rules b)) k),
        ru_Precision (rule_at (rule_map (kp_Rules b)) k), ?day) \<in> fst ` set us"
    "\<And>uk. usage_at (db\<lparr>pd_usage := us\<rparr>) uk = usage_at db uk + charged_all ?day totals ?ks ?as uk" by blast+
  have same: "ru_Currency (rule_at (rule_map (kp_Rules b)) k) = ru_Currency (rule_at ?m k) \<and>
      ru_Precision (rule_at (rule_map (kp_Rules b)) k) = ru_Precision (rule_at ?m k)" if "b \<in> set ?as" "k \<in> set ?ks" for b k
    using er(4) [OF that(2), of b] that(1) by simp
  have pair: "pl_Currency l = ru_Currency (rule_at ?m k) \<and> pl_Precision l = ru_Precision (rule_at ?m k) \<longleftrightarrow> leg_key l = k"
    if "l \<in> set legs" "k \<in> set ?ks" for l k
  proof
    assume "pl_Currency l = ru_Currency (rule_at ?m k) \<and> pl_Precision l = ru_Precision (rule_at ?m k)"
    then have "leg_key l = rule_key (rule_at ?m k)" by (simp add: leg_key_def rule_key_def)
    with er(1) [OF that(2)] show "leg_key l = k" by simp
  next
    assume "leg_key l = k"
    with leg_pair [of "rule_at ?m k" l] er(1,3) [OF that(2)] prec that(1)
    show "pl_Currency l = ru_Currency (rule_at ?m k) \<and> pl_Precision l = ru_Precision (rule_at ?m k)" by simp
  qed
  from ok have bok: "bindings_ok db" and gok: "budgets_ok db" and uok: "usage_ok db" and pok: "policies_ok db"
    by (simp_all add: policy_ok_def)
  have binds: "pd_bindings db' = pd_bindings db @ map (leg_binding newid) legs" by (simp add: db')
  have new: "unreleased db' newid (ru_Currency (rule_at ?m k)) (ru_Precision (rule_at ?m k)) = total_at totals k" if "k \<in> set ?ks" for k
  proof -
    have "unreleased db newid c q = 0" for c q using bok fresh by (intro unreleased_other) (auto simp: bindings_ok_def)
    moreover have "filter (\<lambda>l. pl_Currency l = ru_Currency (rule_at ?m k) \<and> pl_Precision l = ru_Precision (rule_at ?m k)) legs =
      filter (\<lambda>l. leg_key l = k) legs" by (rule filter_cong [OF refl]) (rule pair [OF _ that])
    ultimately show ?thesis using total_legs_Inr(1) [OF t, of k]
      by (simp add: unreleased_append [OF binds] key_total_def total_at_def [of "[]"])
  qed
  have "outstanding db' uk = usage_at db' uk" for uk
  proof -
    have old: "unreleased db' (bg_admission_id g) (bg_currency g) (bg_precision g) = unreleased db (bg_admission_id g) (bg_currency g) (bg_precision g)"
      if "g \<in> set (pd_budgets db)" for g
      using that gok fresh by (auto simp: unreleased_append [OF binds] budgets_ok_def)
    have "outstanding db' uk = outstanding db uk + sum_list (map (\<lambda>b. charged (kp_APIKeyID b) ?day ?m totals ?ks uk) ?as)"
    proof -
      have budgets: "pd_budgets db' = pd_budgets db @ admission_budgets newid ?day ?m totals ?ks ?as" by (simp add: db')
      have "outstanding db uk = sum_list (map (\<lambda>g. if budget_key g = uk
          then unreleased db' (bg_admission_id g) (bg_currency g) (bg_precision g) else 0) (pd_budgets db))"
        unfolding outstanding_def by (rule sum_list_map_cong) (simp add: old)
      then show ?thesis unfolding outstanding_def [of db'] budgets map_append sum_list_append
        using outstanding_new_budgets [of ?ks db' newid ?m totals uk ?day ?as, OF new] by simp
    qed
    also have "sum_list (map (\<lambda>b. charged (kp_APIKeyID b) ?day ?m totals ?ks uk) ?as) = charged_all ?day totals ?ks ?as uk"
      unfolding charged_all_def by (intro sum_list_map_cong charged_cong) (use same in auto)
    also have "outstanding db uk + charged_all ?day totals ?ks ?as uk = usage_at db' uk"
    proof -
      have "usage_at db uk = outstanding db uk" using uok by (simp only: usage_ok_def)
      moreover have "usage_at db' uk = usage_at (db\<lparr>pd_usage := us\<rparr>) uk" by (simp add: usage_at_def db')
      ultimately show ?thesis using us(3) [of uk] by simp
    qed
    finally show ?thesis .
  qed
  moreover have "policies_ok db'" using pok by (simp add: policies_ok_def db')
  moreover have "bindings_ok db'" unfolding bindings_ok_def
  proof (intro conjI ballI)
    show "distinct (map bd_reference (pd_bindings db'))" using dist bok by (simp only: bindings_ok_def)
  next
    fix b assume "b \<in> set (pd_bindings db')"
    then consider "b \<in> set (pd_bindings db)" | l where "b = leg_binding newid l" by (auto simp: binds)
    then show "bd_admission_id b \<in> admission_ids db'" "0 \<le> bd_released b" "bd_released b \<le> bd_amount b"
      by (cases; use bok in \<open>simp add: bindings_ok_def db' a leg_amount_nonneg\<close>)+
  qed
  moreover have "budgets_ok db'" unfolding budgets_ok_def
  proof (intro ballI)
    fix g assume "g \<in> set (pd_budgets db')"
    then consider "g \<in> set (pd_budgets db)" | "g \<in> set (admission_budgets newid ?day ?m totals ?ks ?as)" by (auto simp: db')
    then show "bg_admission_id g \<in> admission_ids db' \<and> budget_key g \<in> fst ` set (pd_usage db')"
    proof cases
      case 1
      with gok us(1) show ?thesis by (auto simp: budgets_ok_def db')
    next
      case 2
      then obtain b k where bk: "b \<in> set ?as" "k \<in> set ?ks" "bg_admission_id g = newid"
        "budget_key g = (kp_APIKeyID b, ru_Currency (rule_at ?m k), ru_Precision (rule_at ?m k), ?day)"
        by (rule admission_budgets_mem)
      with us(2) same [OF bk(1,2)] have "budget_key g \<in> fst ` set us" by metis
      with bk show ?thesis by (simp add: db' a)
    qed
  qed
  ultimately show "policy_ok db'" by (simp add: policy_ok_def usage_ok_def)
qed

lemma AdmitPolicy_cases:
  assumes "AdmitPolicy now newid key identity legs db = Inr (db', res)"
  obtains (replay) row ids fp where "res = Some (ar_admission row)" "db' = db" "keyAncestry db key = Inr ids" "policyFingerprint legs = Inr fp"
      "find (\<lambda>r. pa_APIKeyID (ar_admission r) = key \<and> pa_Identity (ar_admission r) = identity) (pd_admissions db) = Some row"
      "replay_admission fp row db = Inr (ar_admission row)"
    | (unmanaged) "res = None" "db' = db"
    | (fresh) ids fp p a where "keyAncestry db key = Inr ids" "policyFingerprint legs = Inr fp"
      "find (\<lambda>r. pa_APIKeyID (ar_admission r) = key \<and> pa_Identity (ar_admission r) = identity) (pd_admissions db) = None"
      "Intersect key (ancestorPolicies db ids) = Inr (Some p)" "\<not> kp_DenyAll p" "res = Some a"
      "admit_new now newid key identity legs fp (ancestorPolicies db ids) p db = Inr (db', a)"
proof -
  from assms obtain ids fp where ids: "keyAncestry db key = Inr ids" "policyFingerprint legs = Inr fp"
    by (auto simp: AdmitPolicy_def bindE_Inr_iff lockPolicyAncestry_Inr Let_def split: prod.splits)
  let ?found = "find (\<lambda>r. pa_APIKeyID (ar_admission r) = key \<and> pa_Identity (ar_admission r) = identity) (pd_admissions db)"
  have lock: "lockPolicyAncestry db key = Inr (ids, sort ids)" by (simp add: lockPolicyAncestry_Inr ids(1))
  show ?thesis
  proof (cases ?found)
    case (Some row)
    with assms have "replay_admission fp row db = Inr (ar_admission row)" "res = Some (ar_admission row)" "db' = db"
      by (auto simp: AdmitPolicy_def lock ids Let_def bindE_Inr_iff replay_admission_def split: if_splits)
    with Some ids show ?thesis by (intro replay) auto
  next
    case None
    with assms obtain eff where eff: "Intersect key (ancestorPolicies db ids) = Inr eff"
      by (auto simp: AdmitPolicy_def lock ids Let_def bindE_Inr_iff)
    show ?thesis
    proof (cases eff)
      case None': None
      with assms None eff show ?thesis by (intro unmanaged) (auto simp: AdmitPolicy_def lock ids Let_def)
    next
      case (Some p)
      with assms None eff obtain a where "\<not> kp_DenyAll p" "res = Some a"
        "admit_new now newid key identity legs fp (ancestorPolicies db ids) p db = Inr (db', a)"
        by (auto simp: AdmitPolicy_def lock ids Let_def bindE_Inr_iff split: if_splits)
      with None ids eff Some show ?thesis by (intro fresh) auto
    qed
  qed
qed

lemma AdmitPolicy_ok:
  assumes "policy_ok db" "AdmitPolicy now newid key identity legs db = Inr (db', res)" "\<forall>l \<in> set legs. integral (pl_Precision l)"
  shows "policy_ok db'"
  using assms(2)
proof (cases rule: AdmitPolicy_cases)
  case (fresh ids fp p a)
  have "policies_ok db" using assms(1) by (simp add: policy_ok_def)
  then have "\<forall>b \<in> set (ancestorPolicies db ids). Validate b = None" using ancestorPolicies_valid by blast
  from admit_new_ok [OF assms(1) fresh(7) fresh(4) this assms(3)] show ?thesis .
qed (use assms in auto)

subsection \<open>Releases\<close>

lemma capacity_le: "policy_releasable_capacity db b \<le> bd_amount b"
  by (simp add: policy_releasable_capacity_def Let_def)

lemma fold_release:
  assumes "\<forall>k \<in> set ks. k \<in> fst ` set us"
  shows "fst ` set (fold (release_usage d) ks us) = fst ` set us \<and>
    (case map_of (fold (release_usage d) ks us) uk of None \<Rightarrow> 0 | Some n \<Rightarrow> n) =
    (case map_of us uk of None \<Rightarrow> 0 | Some n \<Rightarrow> n) - sum_list (map (\<lambda>k. if k = uk then d else 0) ks)"
  using assms
proof (induction ks arbitrary: us)
  case (Cons k ks)
  from Cons.prems have "map_of us k \<noteq> None" by (simp add: map_of_eq_None_iff)
  then obtain n where n: "map_of us k = Some n" by blast
  then have rel: "release_usage d k us = AList.update k (n - d) us" by (simp add: release_usage_def)
  from Cons.prems have dom: "fst ` set (AList.update k (n - d) us) = fst ` set us" by (auto simp: dom_update)
  have "(case map_of (AList.update k (n - d) us) uk of None \<Rightarrow> 0 | Some n \<Rightarrow> n) =
      (case map_of us uk of None \<Rightarrow> 0 | Some n \<Rightarrow> n) - (if k = uk then d else 0)"
    using n by (auto simp: update_conv)
  with Cons.IH [of "AList.update k (n - d) us"] Cons.prems show ?case by (simp add: rel dom)
qed simp

lemma unreleased_set_released:
  assumes "distinct (map bd_reference (pd_bindings db))" "b \<in> set (pd_bindings db)"
  shows "unreleased (set_released (bd_reference b) n db) adm c p = unreleased db adm c p -
    (if bd_admission_id b = adm \<and> bd_currency b = c \<and> bd_precision b = p then n - bd_released b else 0)"
  using sum_list_map_replace [OF assms, of "\<lambda>b. if bd_admission_id b = adm \<and> bd_currency b = c \<and> bd_precision b = p
     then bd_amount b - bd_released b else 0" "\<lambda>b. b\<lparr>bd_released := n\<rparr>"]
  by (simp add: unreleased_def set_released_def cong: if_cong)

text \<open>The release both the trigger and \<open>ReleasePolicyLeg\<close> perform.\<close>

definition release_binding :: "policy_binding \<Rightarrow> policy_db \<Rightarrow> policy_db" where
  "release_binding b db = set_released (bd_reference b) (policy_releasable_capacity db b)
     (release_policy_budgets (bd_admission_id b) (bd_currency b) (bd_precision b)
        (policy_releasable_capacity db b - bd_released b) db)"

lemma release_binding_ok:
  assumes ok: "policy_ok db" and b: "b \<in> set (pd_bindings db)" and pos: "bd_released b < policy_releasable_capacity db b"
  shows "policy_ok (release_binding b db)"
proof -
  let ?n = "policy_releasable_capacity db b"
  define d where "d = ?n - bd_released b"
  define gs where "gs = filter (budget_for (bd_admission_id b) (bd_currency b) (bd_precision b)) (pd_budgets db)"
  define ks where "ks = map budget_key (sort_key bg_api_key_id gs)"
  let ?us = "fold (release_usage d) ks (pd_usage db)"
  let ?db1 = "release_policy_budgets (bd_admission_id b) (bd_currency b) (bd_precision b) d db"
  let ?db' = "release_binding b db"
  from ok have bok: "bindings_ok db" and gok: "budgets_ok db" and uok: "usage_ok db" and pok: "policies_ok db"
    by (simp_all add: policy_ok_def)
  have db1: "?db1 = db\<lparr>pd_usage := ?us\<rparr>" by (simp add: release_policy_budgets_def ks_def gs_def)
  have db': "?db' = set_released (bd_reference b) ?n (db\<lparr>pd_usage := ?us\<rparr>)" by (simp add: release_binding_def d_def db1 [unfolded d_def])
  have "\<forall>k \<in> set ks. k \<in> fst ` set (pd_usage db)" using gok by (auto simp: ks_def gs_def budgets_ok_def)
  note fr = fold_release [OF this, of d]
  have frame: "pd_budgets ?db' = pd_budgets db" "pd_usage ?db' = ?us" "pd_policies ?db' = pd_policies db" "admission_ids ?db' = admission_ids db"
    "pd_bindings ?db' = map (\<lambda>c. if bd_reference c = bd_reference b then c\<lparr>bd_released := ?n\<rparr> else c) (pd_bindings db)"
    by (simp_all add: db' set_released_def)
  have unr: "unreleased ?db' adm c p = unreleased db adm c p - (if bd_admission_id b = adm \<and> bd_currency b = c \<and> bd_precision b = p then d else 0)" for adm c p
    using unreleased_set_released [of "db\<lparr>pd_usage := ?us\<rparr>" b ?n adm c p] bok b
    by (simp add: db' d_def bindings_ok_def unreleased_def cong: if_cong)
  have "usage_at ?db' uk = outstanding ?db' uk" for uk
  proof -
    have "usage_at ?db' uk = usage_at db uk - sum_list (map (\<lambda>k. if k = uk then d else 0) ks)"
      using conjunct2 [OF fr] by (simp add: usage_at_def frame)
    also have "sum_list (map (\<lambda>k. if k = uk then d else 0) ks) = sum_list (map (\<lambda>g. if budget_key g = uk then d else 0) gs)"
      unfolding ks_def map_map comp_def by (rule sum_list_map_perm) simp
    also have "\<dots> = sum_list (map (\<lambda>g. if budget_key g = uk \<and> budget_for (bd_admission_id b) (bd_currency b) (bd_precision b) g then d else 0) (pd_budgets db))"
    proof -
      have "sum_list (map (\<lambda>g. if budget_key g = uk then d else 0) (filter P xs)) =
        sum_list (map (\<lambda>g. if budget_key g = uk \<and> P g then d else 0) xs)" for P xs by (induction xs) auto
      then show ?thesis by (simp only: gs_def)
    qed
    also have "usage_at db uk = outstanding db uk" using uok by (simp only: usage_ok_def)
    also have "outstanding db uk - sum_list (map (\<lambda>g. if budget_key g = uk \<and> budget_for (bd_admission_id b) (bd_currency b) (bd_precision b) g then d else 0) (pd_budgets db)) = outstanding ?db' uk"
      unfolding outstanding_def frame(1) sum_list_subtractf [symmetric] by (rule sum_list_map_cong) (auto simp: unr budget_for_def)
    finally show ?thesis .
  qed
  moreover have "policies_ok ?db'" using pok by (simp add: policies_ok_def frame)
  moreover have "budgets_ok ?db'" using gok conjunct1 [OF fr] by (simp add: budgets_ok_def frame)
  moreover have "bindings_ok ?db'"
  proof -
    have refs: "map bd_reference (pd_bindings ?db') = map bd_reference (pd_bindings db)" by (simp add: frame)
    have unique: "c = b" if "c \<in> set (pd_bindings db)" "bd_reference c = bd_reference b" for c
      using that b bok by (auto simp: bindings_ok_def distinct_map inj_on_def)
    show ?thesis unfolding bindings_ok_def frame(4)
    proof (intro conjI ballI)
      fix x assume "x \<in> set (pd_bindings ?db')"
      then obtain c where c: "c \<in> set (pd_bindings db)" "x = (if bd_reference c = bd_reference b then c\<lparr>bd_released := ?n\<rparr> else c)"
        by (auto simp: frame(5))
      with bok have "bd_admission_id c \<in> admission_ids db" "0 \<le> bd_released c" "bd_released c \<le> bd_amount c"
        by (simp_all add: bindings_ok_def)
      with c unique [of c] pos capacity_le [of db b]
      show "bd_admission_id x \<in> admission_ids db" "0 \<le> bd_released x" "bd_released x \<le> bd_amount x"
        by (cases "bd_reference c = bd_reference b"; simp)+
    qed (use bok refs in \<open>simp add: bindings_ok_def\<close>)
  qed
  ultimately show ?thesis by (simp add: policy_ok_def usage_ok_def)
qed

lemma policy_ok_frame:
  assumes "policy_ok db" "pd_usage db' = pd_usage db" "pd_budgets db' = pd_budgets db" "pd_bindings db' = pd_bindings db"
    and "admission_ids db' = admission_ids db" "policies_ok db'"
  shows "policy_ok db'"
proof -
  have "unreleased db' = unreleased db" by (intro ext) (simp add: unreleased_def assms)
  then have "outstanding db' = outstanding db" by (intro ext) (simp add: outstanding_def assms cong: if_cong)
  moreover have "usage_at db' = usage_at db" by (intro ext) (simp add: usage_at_def assms)
  ultimately show ?thesis using assms by (simp only: policy_ok_def bindings_ok_def budgets_ok_def usage_ok_def) blast
qed

lemma policy_ok_decisions:
  assumes "policy_ok db" "map (\<lambda>r. pa_ID (ar_admission r)) rs = map (\<lambda>r. pa_ID (ar_admission r)) (pd_admissions db)"
  shows "policy_ok (db\<lparr>pd_admissions := rs\<rparr>)"
proof -
  from assms(2) have "(\<lambda>r. pa_ID (ar_admission r)) ` set rs = admission_ids db" by (metis set_map)
  then show ?thesis by (intro policy_ok_frame [OF assms(1)]) (use assms(1) in \<open>simp_all add: policy_ok_def policies_ok_def\<close>)
qed

lemma policy_ok_transactions: "policy_ok db \<Longrightarrow> policy_ok (db\<lparr>pd_transactions := ts\<rparr>)"
  by (rule policy_ok_frame) (simp_all add: policy_ok_def policies_ok_def)

lemma reject_released_ok: "policy_ok db \<Longrightarrow> policy_ok (reject_released adm db)"
  unfolding reject_released_def by (rule policy_ok_decisions) auto

lemma set_decision_ok: "policy_ok db \<Longrightarrow> policy_ok (set_decision i d w db)"
  unfolding set_decision_def by (rule policy_ok_decisions) auto

lemma find_snoc: "find P xs = None \<Longrightarrow> find P (xs @ ys) = find P ys"
  by (induction xs) (auto split: if_splits)

lemma find_binding_mem: "find_binding db ref = Some b \<Longrightarrow> b \<in> set (pd_bindings db) \<and> bd_reference b = ref"
  by (auto simp: find_binding_def find_Some_iff)

lemma binding_of_mem: "binding_of bs is = Some b \<Longrightarrow> b \<in> set bs"
  by (induction bs "is" rule: binding_of.induct) (auto split: option.splits simp: find_Some_iff)

lemma ReleasePolicyLeg_cases:
  assumes "ReleasePolicyLeg i db = Inr db'"
  shows "db' = db \<or> (\<exists>b \<in> set (pd_bindings db). bd_released b < policy_releasable_capacity db b \<and>
    db' = reject_released (bd_admission_id b) (release_binding b db))"
proof (cases "find_binding db (policyReference db i)")
  case (Some b)
  note mem = find_binding_mem [OF Some]
  show ?thesis
  proof (cases "db' = db")
    case False
    with assms Some have "bd_released b < policy_releasable_capacity db b"
      "db' = reject_released (bd_admission_id b) (release_binding b db)"
      by (simp_all add: ReleasePolicyLeg_def Let_def release_binding_def mem split: if_splits)
    with mem show ?thesis by blast
  qed simp
qed (use assms in \<open>simp add: ReleasePolicyLeg_def Let_def split: if_splits\<close>)

lemma ReleasePolicyLeg_ok: "policy_ok db \<Longrightarrow> ReleasePolicyLeg i db = Inr db' \<Longrightarrow> policy_ok db'"
  using ReleasePolicyLeg_cases [of i db db'] release_binding_ok [of db] reject_released_ok by blast

lemma release_terminal_ok: "policy_ok db \<Longrightarrow> policy_ok (release_terminal_policy_reservation t db)"
  using binding_of_mem [of "pd_bindings db"] release_binding_ok [of db] reject_released_ok
  by (fastforce simp: release_terminal_policy_reservation_def Let_def release_binding_def split: option.splits)

lemma insert_posting_ok: "policy_ok db \<Longrightarrow> insert_posting t db = Inr db' \<Longrightarrow> policy_ok db'"
  by (auto simp: insert_posting_def guardE_Inr_iff policy_ok_transactions release_terminal_ok split: if_splits)

lemma DecidePolicyApproval_ok: "policy_ok db \<Longrightarrow> DecidePolicyApproval i p b db = Inr (db', a) \<Longrightarrow> policy_ok db'"
  by (auto simp: DecidePolicyApproval_def Let_def guardE_Inr_iff set_decision_ok split: option.splits if_splits)

lemma policy_ok_policies:
  assumes "policy_ok db" "Validate (kr_document r) = None"
  shows "policy_ok (db\<lparr>pd_policies := AList.update k r (pd_policies db), pd_rules := rs\<rparr>)"
    "policy_ok (db\<lparr>pd_policies := AList.update k r (pd_policies db)\<rparr>)"
proof -
  have "\<forall>x \<in> set (AList.update k r (pd_policies db)). case x of (k, r) \<Rightarrow> Validate (kr_document r) = None"
    using assms set_update_subset [of k r "pd_policies db"] by (fastforce simp: policy_ok_def policies_ok_def)
  then show "policy_ok (db\<lparr>pd_policies := AList.update k r (pd_policies db), pd_rules := rs\<rparr>)"
    "policy_ok (db\<lparr>pd_policies := AList.update k r (pd_policies db)\<rparr>)"
    by (intro policy_ok_frame [OF assms(1)]; simp add: policies_ok_def)+
qed

lemma PutKeyPolicy_ok: "policy_ok db \<Longrightarrow> PutKeyPolicy w p db = Inr (db', q) \<Longrightarrow> policy_ok db'"
  by (auto simp: PutKeyPolicy_def Let_def guardE_Inr_iff bindE_Inr_iff policy_ok_policies split: if_splits)

lemma DeleteKeyPolicy_ok:
  assumes "policy_ok db" "DeleteKeyPolicy w k db = Inr db'"
  shows "policy_ok db'"
proof (cases "map_of (pd_policies db) k")
  case (Some r)
  with assms(1) have "Validate (kr_document r) = None" by (auto simp: policy_ok_def policies_ok_def dest!: map_of_SomeD)
  with assms Some show ?thesis by (auto simp: DeleteKeyPolicy_def guardE_Inr_iff bindE_Inr_iff policy_ok_policies)
qed (use assms in \<open>auto simp: DeleteKeyPolicy_def guardE_Inr_iff bindE_Inr_iff\<close>)

subsection \<open>Runs of the store\<close>

definition empty_policy_db :: "(string \<times> string) list \<Rightarrow> policy_db" where
  "empty_policy_db parents = \<lparr>pd_parents = parents, pd_policies = [], pd_rules = [], pd_usage = [], pd_admissions = [],
     pd_budgets = [], pd_bindings = [], pd_transactions = []\<rparr>"

inductive policy_run :: "policy_db \<Rightarrow> bool" where
  init: "policy_run (empty_policy_db parents)"
| put: "policy_run db \<Longrightarrow> PutKeyPolicy who p db = Inr (db', q) \<Longrightarrow> policy_run db'"
| delete: "policy_run db \<Longrightarrow> DeleteKeyPolicy who key db = Inr db' \<Longrightarrow> policy_run db'"
| admit: "policy_run db \<Longrightarrow> \<forall>l \<in> set legs. integral (pl_Precision l) \<Longrightarrow>
    AdmitPolicy now newid key identity legs db = Inr (db', res) \<Longrightarrow> policy_run db'"
| decide: "policy_run db \<Longrightarrow> DecidePolicyApproval i who b db = Inr (db', a) \<Longrightarrow> policy_run db'"
| release: "policy_run db \<Longrightarrow> ReleasePolicyLeg i db = Inr db' \<Longrightarrow> policy_run db'"
| post: "policy_run db \<Longrightarrow> insert_posting t db = Inr db' \<Longrightarrow> policy_run db'"

lemma policy_run_ok: "policy_run db \<Longrightarrow> policy_ok db"
proof (induction rule: policy_run.induct)
  case (init parents)
  show ?case
    by (simp add: empty_policy_db_def policy_ok_def policies_ok_def bindings_ok_def budgets_ok_def usage_ok_def usage_at_def outstanding_def)
qed (auto intro: PutKeyPolicy_ok DeleteKeyPolicy_ok AdmitPolicy_ok DecidePolicyApproval_ok ReleasePolicyLeg_ok insert_posting_ok)

text \<open>
  C13: budget usage is exact. In every state reached by putting and deleting policies, admitting
  requests, deciding approvals, posting transactions and releasing reservations, each usage row
  equals the unreleased amounts of the admissions charged to it, and is never negative: no
  capacity leaks and none is created.
\<close>

theorem usage_accounting:
  assumes "policy_run db"
  shows "usage_at db uk = outstanding db uk \<and> 0 \<le> usage_at db uk"
  using policy_run_ok [OF assms] outstanding_nonneg by (simp only: policy_ok_def usage_ok_def)

subsection \<open>What an admission guarantees\<close>

lemma admission_authorised:
  assumes ok: "policies_ok db" and ids: "keyAncestry db key = Inr ids"
    and eff: "Intersect key (ancestorPolicies db ids) = Inr (Some p)" and deny: "\<not> kp_DenyAll p"
    and run: "admit_new now newid key identity legs fp (ancestorPolicies db ids) p db = Inr (db', a)"
    and pol: "pol \<in> set (ancestorPolicies db ids)" and l: "l \<in> set legs" and r: "r \<in> set (kp_Rules pol)" "rule_key r = leg_key l"
  shows "permits pol l (key_total (leg_key l) legs) \<and>
    (needs_approval pol l (key_total (leg_key l) legs) \<longrightarrow> pa_Decision a = ''pending'') \<and>
    under (ru_DailyLimit r) (usage_at db' (kp_APIKeyID pol, ru_Currency r, ru_Precision r, utc_day now))"
  using run
proof (rule admit_new_Inr)
  fix totals :: "(string \<times> int) list" and decision us
  let ?m = "rule_map (kp_Rules p)" and ?ks = "sort (map fst totals)" and ?as = "sort_key kp_APIKeyID (ancestorPolicies db ids)"
    and ?day = "utc_day now" and ?n = "key_total (leg_key l) legs"
  assume t: "total_legs p ?m legs [] = Inr totals"
    and check: "check_totals ?m totals ?ks ''not_required'' = Inr decision"
    and charge: "charge_ancestors ?day totals ?ks ?as db = Inr (db\<lparr>pd_usage := us\<rparr>)"
    and a: "a = \<lparr>pa_ID = newid, pa_APIKeyID = key, pa_Identity = identity, pa_Version = kp_Version p,
          pa_Day = ?day, pa_Decision = decision, pa_DecidedBy = [], pa_Legs = legs\<rparr>"
    and db': "db' = db\<lparr>pd_usage := us, pd_admissions := pd_admissions db @ [\<lparr>ar_admission = a, ar_fingerprint = fp\<rparr>],
       pd_budgets := pd_budgets db @ admission_budgets newid ?day ?m totals ?ks ?as,
       pd_bindings := pd_bindings db @ map (leg_binding newid) legs\<rparr>"
  have valid: "\<forall>b \<in> set (ancestorPolicies db ids). Validate b = None" using ancestorPolicies_valid [OF ok] by blast
  from pol have "ancestorPolicies db ids \<noteq> []" by auto
  from Intersect_meaning [OF this, of key] valid Validate_rules_ok eff
  have lim: "list_all limits_ok (kp_Rules p)" and auth: "authority p = (\<Inter>b \<in> set (ancestorPolicies db ids). authority b)"
    and app: "\<forall>l n. permits p l n \<longrightarrow> (needs_approval p l n \<longleftrightarrow> (\<exists>b \<in> set (ancestorPolicies db ids). needs_approval b l n))" by auto
  from total_legs_Inr(2) [OF t] have ks: "set ?ks = leg_key ` set legs" by simp
  from total_legs_Inr(3) [OF t] have dks: "distinct ?ks" by simp
  have rule: "map_of ?m k \<noteq> None" if "k \<in> set ?ks" for k using that total_legs_Inr(4) [OF t] unfolding ks by blast
  note er = effective_rule [OF eff valid rule]
  have k: "leg_key l \<in> set ?ks" using l by (simp only: ks) blast
  have total: "total_at totals (leg_key l) = ?n" using total_legs_Inr(1) [OF t, of "leg_key l"] by (simp add: total_at_def [of "[]"])
  have limits: "limits_ok (rule_at ?m j)" if "j \<in> set ?ks" for j using er(2) [OF that] lim by (simp add: list_all_iff)
  note ct = check_totals_Inr [OF check limits]
  have "permits p l ?n"
    unfolding permits_def using deny total_legs_Inr(4) [OF t l] bspec [OF ct(1) k] er(1,2) [OF k] unfolding total by blast
  then have perm: "permits pol l ?n" using auth pol by (auto simp: authority_def)
  have "pa_Decision a = ''pending''" if "needs_approval pol l ?n"
  proof -
    from that app \<open>permits p l ?n\<close> pol have "needs_approval p l ?n" by blast
    then obtain r' where r': "r' \<in> set (kp_Rules p)" "rule_key r' = leg_key l" "\<not> under (ru_ApprovalAbove r') ?n"
      by (auto simp: needs_approval_def)
    have "rules_ok (kp_Rules p)" using Intersect_distinct [OF eff] valid Validate_rules_ok lim by (simp add: rules_ok_def)
    from rule_map_valid [OF this r'(1)] r'(2) have "r' = rule_at ?m (leg_key l)" by simp
    with r'(3) k total have "\<exists>k \<in> set ?ks. \<not> under (ru_ApprovalAbove (rule_at ?m k)) (total_at totals k)"
      by (intro bexI [of _ "leg_key l"]) simp_all
    with ct(2) have "decision = ''pending''" by (simp only: if_True)
    then show ?thesis by (simp add: a)
  qed
  moreover have "under (ru_DailyLimit r) (usage_at db' (kp_APIKeyID pol, ru_Currency r, ru_Precision r, ?day))"
  proof -
    have pm: "pol \<in> set ?as" using pol by simp
    have "rules_ok (kp_Rules pol)" using valid pol Validate_rules_ok by blast
    from rule_map_valid [OF this r(1)] r(2) have at: "rule_at (rule_map (kp_Rules pol)) (leg_key l) = r" by simp
    have keys: "rule_key (rule_at (rule_map (kp_Rules pol)) j) = j" if "j \<in> set ?ks" for j using er(4) [OF that pol] by blast
    have once: "(ru_Currency (rule_at (rule_map (kp_Rules pol)) j), ru_Precision (rule_at (rule_map (kp_Rules pol)) j)) \<noteq>
        (ru_Currency (rule_at (rule_map (kp_Rules pol)) (leg_key l)), ru_Precision (rule_at (rule_map (kp_Rules pol)) (leg_key l)))"
      if "j \<in> set ?ks" "j \<noteq> leg_key l" for j using that keys [OF that(1)] keys [OF k] by (auto simp: rule_key_def)
    have "distinct (map kp_APIKeyID ?as)"
      using ancestorPolicies_distinct [OF keyAncestry_distinct [OF ids]] by (simp add: distinct_map)
    from charge_ancestors_limit [OF charge pm k once dks this] show ?thesis
      by (simp add: at usage_at_def db')
  qed
  ultimately show ?thesis using perm by blast
qed


lemma policies_effective:
  assumes "policies_ok db" "PutKeyPolicy who p db = Inr (db', q)"
  shows "\<exists>e. GetKeyPolicy db' (kp_APIKeyID p) = Inr (Some e) \<and> authority e = authority p"
proof -
  let ?k = "kp_APIKeyID p"
  from assms(2) obtain ids parent where v: "Validate p = None" and ids: "keyAncestry db ?k = Inr ids"
    and parent: "Intersect ?k (ancestorPolicies db (tl ids)) = Inr parent" and narrow: "ValidateNarrowing p parent = None"
    by (auto simp: PutKeyPolicy_def guardE_Inr_iff bindE_Inr_iff lockPolicyAncestry_Inr Let_def split: if_splits)
  define v' where "v' = (case map_of (pd_policies db) ?k of None \<Rightarrow> 1 | Some r \<Rightarrow> kr_version r + 1)"
  define row where "row = \<lparr>kr_document = p\<lparr>kp_InheritedFrom := []\<rparr>, kr_version = v', kr_enabled = True\<rparr>"
  from assms(2) have db': "pd_policies db' = AList.update ?k row (pd_policies db)" "pd_parents db' = pd_parents db"
    by (auto simp: PutKeyPolicy_def guardE_Inr_iff bindE_Inr_iff lockPolicyAncestry_Inr Let_def row_def v'_def split: if_splits)
  have ids': "keyAncestry db' ?k = Inr ids" using ids by (simp add: keyAncestry_def db')
  note ka = keyAncestry_Inr [OF ids]
  from ka(4,5) obtain xs where xs: "ids = ?k # xs" by (cases ids) auto
  with keyAncestry_distinct [OF ids] have new: "?k \<notin> set xs" by simp
  define p' where "p' = p\<lparr>kp_InheritedFrom := [], kp_APIKeyID := ?k, kp_Version := v'\<rparr>"
  have rest: "ancestorPolicies db' xs = ancestorPolicies db xs" if "?k \<notin> set xs" for xs
    using that by (induction xs) (auto simp: ancestorPolicies_def db' update_conv)
  have head: "ancestorPolicies db' (?k # xs) = p' # ancestorPolicies db' xs" for xs
    by (simp add: ancestorPolicies_def db' update_conv row_def p'_def)
  have pols: "ancestorPolicies db' ids = p' # ancestorPolicies db (tl ids)" using rest [OF new] head [of xs] by (simp add: xs)
  have valid: "\<forall>b \<in> set (ancestorPolicies db (tl ids)). Validate b = None" using ancestorPolicies_valid [OF assms(1)] by blast
  have v2: "Validate p' = None" using v by (simp add: Validate_def p'_def split: if_splits)
  have same: "authority p' = authority p" by (simp add: authority_def permits_def p'_def)
  from Intersect_meaning [of "ancestorPolicies db' ids" ?k] valid v2 Validate_rules_ok obtain e where
    e: "Intersect ?k (ancestorPolicies db' ids) = Inr (Some e)" "authority e = (\<Inter>b \<in> set (ancestorPolicies db' ids). authority b)"
    unfolding pols by auto
  have "authority e = authority p" using e(2) narrowing_authority [OF v valid parent narrow] unfolding pols by (auto simp: same)
  with e(1) ids' show ?thesis by (simp add: GetKeyPolicy_def)
qed

text \<open>
  C16: a stored policy is the effective policy. After \<open>PutKeyPolicy\<close> accepts a document, reading the
  effective policy of that key succeeds and authorises exactly the postings the document
  authorises, although it is the intersection with all ancestor policies.
\<close>

theorem PutKeyPolicy_effective:
  assumes "policy_run db" "PutKeyPolicy who p db = Inr (db', q)"
  shows "\<exists>e. GetKeyPolicy db' (kp_APIKeyID p) = Inr (Some e) \<and> authority e = authority p"
  using policies_effective [OF _ assms(2)] policy_run_ok [OF assms(1)] by (simp add: policy_ok_def)

text \<open>
  C17: admission is idempotent. Repeating an admitted request under the same identity, at any later
  time, returns the same admission and charges nothing.
\<close>

theorem AdmitPolicy_retry:
  assumes "policy_run db" "AdmitPolicy now newid key identity legs db = Inr (db', Some a)"
  shows "AdmitPolicy now' newid' key identity legs db' = Inr (db', Some a)"
  using assms(2)
proof (cases rule: AdmitPolicy_cases)
  case (replay row ids fp)
  then show ?thesis by (auto simp: AdmitPolicy_def lockPolicyAncestry_def)
next
  case (fresh ids fp p a')
  have bok: "bindings_ok db" using policy_run_ok [OF assms(1)] by (simp add: policy_ok_def)
  from fresh(7) show ?thesis
  proof (rule admit_new_Inr)
    fix totals :: "(string \<times> int) list" and decision us
    let ?m = "rule_map (kp_Rules p)" and ?ks = "sort (map fst totals)" and ?as = "sort_key kp_APIKeyID (ancestorPolicies db ids)"
    assume check: "check_totals ?m totals ?ks ''not_required'' = Inr decision"
      and a: "a' = \<lparr>pa_ID = newid, pa_APIKeyID = key, pa_Identity = identity, pa_Version = kp_Version p,
          pa_Day = utc_day now, pa_Decision = decision, pa_DecidedBy = [], pa_Legs = legs\<rparr>"
      and db': "db' = db\<lparr>pd_usage := us, pd_admissions := pd_admissions db @ [\<lparr>ar_admission = a', ar_fingerprint = fp\<rparr>],
         pd_budgets := pd_budgets db @ admission_budgets newid (utc_day now) ?m totals ?ks ?as,
         pd_bindings := pd_bindings db @ map (leg_binding newid) legs\<rparr>"
      and new: "newid \<notin> admission_ids db"
    have "check_totals ?m totals ks d = Inr d' \<Longrightarrow> d \<noteq> ''rejected'' \<Longrightarrow> d' \<noteq> ''rejected''" for ks d d'
      by (induction ks arbitrary: d) (auto simp: bindE_Inr_iff split: if_splits)
    from this [OF check] have dec: "decision \<noteq> ''rejected''" by simp
    have found: "find (\<lambda>r. pa_APIKeyID (ar_admission r) = key \<and> pa_Identity (ar_admission r) = identity) (pd_admissions db') =
      Some \<lparr>ar_admission = a', ar_fingerprint = fp\<rparr>"
      using fresh(3) by (simp add: db' a find_snoc)
    have "\<forall>b \<in> set (pd_bindings db). bd_admission_id b \<noteq> newid" using bok new by (auto simp: bindings_ok_def)
    then have "\<not> list_ex (\<lambda>b. bd_admission_id b = newid \<and> 0 < bd_released b) (pd_bindings db')"
      by (simp add: db' list_ex_iff ball_Un)
    with dec have "replay_admission fp \<lparr>ar_admission = a', ar_fingerprint = fp\<rparr> db' = Inr a'"
      by (simp add: replay_admission_def a)
    with found fresh(1,2,6) show ?thesis by (simp add: AdmitPolicy_def lockPolicyAncestry_def keyAncestry_def Let_def db' split: if_splits)
  qed
qed simp

text \<open>
  C18: approvals are independent. A decision recorded for a key principal comes from a key that is
  neither the initiator nor anywhere below it in the delegation order, and that, when it shares
  the initiator's root, is that root itself.
\<close>

theorem approval_independent:
  assumes "DecidePolicyApproval i p b db = Inr (db', a)" "\<not> pr_Master p"
  shows "\<exists>r. find_admission db i = Some r \<and> pa_APIKeyID (ar_admission r) \<notin> ancestors db (pr_APIKeyID p) \<and>
    (\<forall>root. is_root db root \<and> root \<in> ancestors db (pr_APIKeyID p) \<inter> ancestors db (pa_APIKeyID (ar_admission r)) \<longrightarrow>
       pr_APIKeyID p = root)"
proof -
  from assms(1) obtain r where r: "find_admission db i = Some r" "independentApprover db (pa_APIKeyID (ar_admission r)) p = None"
    by (auto simp: DecidePolicyApproval_def Let_def guardE_Inr_iff split: if_splits option.splits)
  let ?init = "pa_APIKeyID (ar_admission r)"
  from r(2) assms(2) obtain xs ys where xs: "keyAncestry db ?init = Inr xs" and ys: "keyAncestry db (pr_APIKeyID p) = Inr ys"
    and notin: "?init \<notin> set ys" and root: "last xs = last ys \<longrightarrow> length ys = 1"
    by (auto simp: independentApprover_def split: if_splits sum.splits)
  note kx = keyAncestry_Inr [OF xs] and ky = keyAncestry_Inr [OF ys]
  have "pr_APIKeyID p = \<rho>" if "is_root db \<rho>" "\<rho> \<in> ancestors db (pr_APIKeyID p)" "\<rho> \<in> ancestors db ?init" for \<rho>
  proof -
    have "\<rho> = last xs" using unique_root [OF that(3) _ that(1) kx(3)] kx(2,4) last_in_set by blast
    moreover have "\<rho> = last ys" using unique_root [OF that(2) _ that(1) ky(3)] ky(2,4) last_in_set by blast
    ultimately have "length ys = 1" using root by simp
    with ky(5) \<open>\<rho> = last ys\<close> show ?thesis by (cases ys) auto
  qed
  with r(1) notin ky(2) show ?thesis by auto
qed

text \<open>
  C19: ancestry queries are bounded and complete. A key's ancestry is refused or is a list of at most
  64 distinct keys that starts with the key, ends in a root and holds exactly its ancestors; a
  key on a delegation cycle is always refused.
\<close>

theorem keyAncestry_bounds:
  "(case keyAncestry db key of
      Inl e \<Rightarrow> errors_Is e ErrDenied
    | Inr ids \<Rightarrow> 0 < length ids \<and> length ids \<le> 64 \<and> distinct ids \<and> hd ids = key \<and> is_root db (last ids) \<and> set ids = ancestors db key)"
proof (cases "keyAncestry db key")
  case (Inl e)
  then show ?thesis by (auto simp: keyAncestry_def Let_def denied_def split: if_splits)
next
  case (Inr ids)
  from keyAncestry_Inr [OF Inr] keyAncestry_distinct [OF Inr] Inr show ?thesis by simp
qed

subsection \<open>An example run\<close>

text \<open>A root key with a policy, a child key with a narrower one, and a request of the child that
  exceeds the approval threshold.\<close>

definition ex_master :: Principal where
  "ex_master = \<lparr>pr_APIKeyID = [], pr_Master = True, pr_Scopes = []\<rparr>"

definition ex_policy_row :: "string \<Rightarrow> string \<Rightarrow> string list \<Rightarrow> policy_row" where
  "ex_policy_row k mx bs = \<lparr>kr_document = ex_policy k mx bs, kr_version = 1, kr_enabled = True\<rparr>"

definition ex_store1 :: policy_db where
  "ex_store1 = (empty_policy_db [(''child'', ''root'')])\<lparr>pd_policies := [(''root'', ex_policy_row ''root'' ''7'' [])],
     pd_rules := [(''root'', ex_rule ''7'' ''2'')]\<rparr>"

definition ex_store2 :: policy_db where
  "ex_store2 = ex_store1\<lparr>pd_policies := [(''root'', ex_policy_row ''root'' ''7'' []), (''child'', ex_policy_row ''child'' ''5'' [''a'', ''b''])],
     pd_rules := [(''root'', ex_rule ''7'' ''2''), (''child'', ex_rule ''5'' ''2'')]\<rparr>"

definition ex_leg :: PolicyLeg where
  "ex_leg = \<lparr>pl_TransactionID = ''t1'', pl_Reference = ''r1'', pl_Source = ''a'', pl_Destination = ''b'', pl_SourceLedger = ''l'',
     pl_DestinationLedger = ''l'', pl_Currency = ''USD'', pl_Precision = Fin 100, pl_Amount = ''4''\<rparr>"

lemma ex_put_root: "PutKeyPolicy ex_master (ex_policy ''root'' ''7'' []) (empty_policy_db [(''child'', ''root'')]) =
    Inr (ex_store1, ex_policy ''root'' ''7'' [])"
  by code_simp

lemma ex_put_child: "PutKeyPolicy ex_master (ex_policy ''child'' ''5'' [''a'', ''b'']) ex_store1 =
    Inr (ex_store2, ex_policy ''child'' ''5'' [''a'', ''b''])"
  by code_simp

lemma ex_policy_run: "policy_run ex_store1" "policy_run ex_store2"
proof -
  show "policy_run ex_store1" by (rule policy_run.put [OF policy_run.init ex_put_root])
  then show "policy_run ex_store2" by (rule policy_run.put [OF _ ex_put_child])
qed

definition ex_admission :: PolicyAdmission where
  "ex_admission = \<lparr>pa_ID = ''adm'', pa_APIKeyID = ''child'', pa_Identity = ''r1'', pa_Version = 2, pa_Day = 0,
     pa_Decision = ''pending'', pa_DecidedBy = [], pa_Legs = [ex_leg]\<rparr>"

definition ex_budget :: "string \<Rightarrow> policy_budget" where
  "ex_budget k = \<lparr>bg_admission_id = ''adm'', bg_api_key_id = k, bg_currency = ''USD'', bg_precision = Fin 100, bg_day = 0, bg_amount = 4\<rparr>"

definition ex_store3 :: "string \<Rightarrow> policy_db" where
  "ex_store3 fp = ex_store2\<lparr>
     pd_usage := [((''child'', ''USD'', Fin 100, 0), 4), ((''root'', ''USD'', Fin 100, 0), 4)],
     pd_admissions := [\<lparr>ar_admission = ex_admission, ar_fingerprint = fp\<rparr>],
     pd_budgets := [ex_budget ''child'', ex_budget ''root''],
     pd_bindings := [leg_binding ''adm'' ex_leg]\<rparr>"

lemma ex_ancestry: "keyAncestry ex_store2 ''child'' = Inr [''child'', ''root'']"
  by code_simp

lemma ex_effective:
  "Intersect ''child'' (ancestorPolicies ex_store2 [''child'', ''root'']) =
     Inr (Some ((ex_policy ''child'' ''5'' [''a'', ''b''])\<lparr>kp_Version := 2, kp_InheritedFrom := [''root'']\<rparr>))"
  by code_simp

lemma ex_admit_new:
  "admit_new 1 ''adm'' ''child'' ''r1'' [ex_leg] fp (ancestorPolicies ex_store2 [''child'', ''root''])
     ((ex_policy ''child'' ''5'' [''a'', ''b''])\<lparr>kp_Version := 2, kp_InheritedFrom := [''root'']\<rparr>) ex_store2 =
   Inr (ex_store3 fp, ex_admission)"
  by code_simp

lemma ex_fingerprint: "\<exists>fp. policyFingerprint [ex_leg] = Inr fp"
  by (simp add: policyFingerprint_def leg_json_def ex_leg_def)

lemma ex_AdmitPolicy:
  "policyFingerprint [ex_leg] = Inr fp \<Longrightarrow> AdmitPolicy 1 ''adm'' ''child'' ''r1'' [ex_leg] ex_store2 = Inr (ex_store3 fp, Some ex_admission)"
proof -
  have none: "pd_admissions ex_store2 = []" by (simp add: ex_store2_def ex_store1_def empty_policy_db_def)
  have open_policy: "\<not> kp_DenyAll (ex_policy ''child'' ''5'' [''a'', ''b''])" by (simp add: ex_policy_def)
  show "policyFingerprint [ex_leg] = Inr fp \<Longrightarrow> ?thesis"
    by (simp add: AdmitPolicy_def lockPolicyAncestry_def ex_ancestry ex_effective ex_admit_new none open_policy Let_def)
qed

lemma ex_policy_run3: "policyFingerprint [ex_leg] = Inr fp \<Longrightarrow> policy_run (ex_store3 fp)"
  by (rule policy_run.admit [OF ex_policy_run(2) _ ex_AdmitPolicy]) (simp_all add: ex_leg_def integral_def)

theorem usage_accounting_witness:
  "\<exists>fp. policy_run (ex_store3 fp) \<and> usage_at (ex_store3 fp) (''root'', ''USD'', Fin 100, 0) = 4 \<and>
     outstanding (ex_store3 fp) (''root'', ''USD'', Fin 100, 0) = 4"
proof -
  obtain fp where fp: "policyFingerprint [ex_leg] = Inr fp" using ex_fingerprint by blast
  have "usage_at (ex_store3 fp) (''root'', ''USD'', Fin 100, 0) = 4" by (simp add: usage_at_def ex_store3_def)
  with usage_accounting [OF ex_policy_run3 [OF fp], of "(''root'', ''USD'', Fin 100, 0)"] ex_policy_run3 [OF fp]
  show ?thesis by (intro exI [of _ fp]) simp
qed


theorem PutKeyPolicy_effective_witness:
  "\<exists>e. GetKeyPolicy ex_store2 ''child'' = Inr (Some e) \<and> authority e = authority (ex_policy ''child'' ''5'' [''a'', ''b''])"
  using PutKeyPolicy_effective [OF ex_policy_run(1) ex_put_child] by (simp add: ex_policy_def)

theorem AdmitPolicy_retry_witness:
  "\<exists>db'. AdmitPolicy 1 ''adm'' ''child'' ''r1'' [ex_leg] ex_store2 = Inr (db', Some ex_admission) \<and>
     AdmitPolicy (2 * ns_per_day) ''other'' ''child'' ''r1'' [ex_leg] db' = Inr (db', Some ex_admission)"
proof -
  obtain fp where fp: "policyFingerprint [ex_leg] = Inr fp" using ex_fingerprint by blast
  from AdmitPolicy_retry [OF ex_policy_run(2) ex_AdmitPolicy [OF fp]] ex_AdmitPolicy [OF fp] show ?thesis by blast
qed

definition ex_reviewer :: Principal where
  "ex_reviewer = \<lparr>pr_APIKeyID = ''root'', pr_Master = False, pr_Scopes = [''approvals:write'']\<rparr>"

theorem approval_independent_witness:
  "pa_APIKeyID ex_admission \<notin> ancestors (ex_store3 ''f'') (pr_APIKeyID ex_reviewer)"
proof -
  have "DecidePolicyApproval ''adm'' ex_reviewer True (ex_store3 ''f'') =
    Inr (set_decision ''adm'' ''approved'' ''root'' (ex_store3 ''f''), ex_admission\<lparr>pa_Decision := ''approved'', pa_DecidedBy := ''root''\<rparr>)"
    by code_simp
  from approval_independent [OF this] show ?thesis
    by (auto simp: ex_reviewer_def find_admission_def ex_store3_def ex_admission_def)
qed

end
