(* ===== verification/Exec_Controls.thy ===== *)
theory Exec_Controls
  imports Model_Types
begin

section \<open>Execution controls (model/execution\_controls.go)\<close>

text \<open>
  The execution decisions of a transaction (overdraft, inflight, lane, splits, lineage metadata)
  are kept in a JSONB column of their own, apart from customer metadata. The theory models the
  record \<open>ExecutionControls\<close>, its JSON form in both directions, the decoder's legacy branch, and
  the guard on customer metadata keys. It shows that what is written is what is read back, that
  the legacy branch is total, and that metadata that passes the guard carries no decision.

  JSON text is represented by its tree, \<^typ>\<open>json\<close>: the column is JSONB, so the text is always
  well formed and the keys of an object are distinct. \<open>json.Unmarshal\<close> into a struct visits the
  entries of the object in order and matches field names without regard to case; null leaves a
  scalar field as it is and clears a map or slice; a value of another type is an error. The
  partial value \<open>Unmarshal\<close> leaves behind on an error is not represented, since every caller
  discards it.
\<close>

subsection \<open>time.Time.UnmarshalJSON\<close>

text \<open>Day number (days since 1970-01-01) of a date, the inverse of \<^const>\<open>civil_from_days\<close>.\<close>

definition days_from_civil :: "int \<Rightarrow> int \<Rightarrow> int \<Rightarrow> int" where
  "days_from_civil y0 m d =
     (let y = (if m \<le> 2 then y0 - 1 else y0); era = y div 400; yoe = y mod 400;
          mp = (if m > 2 then m - 3 else m + 9);
          doy = (153 * mp + 2) div 5 + d - 1;
          doe = yoe * 365 + yoe div 4 - yoe div 100 + doy
      in era * 146097 + doe - 719468)"

definition days_in :: "int \<Rightarrow> int \<Rightarrow> int" where
  "days_in y m =
     (if m = 2 then (if y mod 4 = 0 \<and> (y mod 100 \<noteq> 0 \<or> y mod 400 = 0) then 29 else 28)
      else if m \<in> {4, 6, 9, 11} then 30 else 31)"

text \<open>The zone suffix: \<open>Z\<close> or a signed \<open>hh:mm\<close>, as an offset in seconds.\<close>

definition parse_zone :: "string \<Rightarrow> int option" where
  "parse_zone s = (case s of
       [c] \<Rightarrow> if c = CHR ''Z'' then Some 0 else None
     | [sg, h1, h2, c, m1, m2] \<Rightarrow>
         if list_all is_digit [h1, h2, m1, m2] \<and> c = CHR '':'' \<and> sg \<in> {CHR ''+'', CHR ''-''}
            \<and> digits_val [h1, h2] < 24 \<and> digits_val [m1, m2] < 60
         then Some ((if sg = CHR ''-'' then - 1 else 1) * int (digits_val [h1, h2] * 3600 + digits_val [m1, m2] * 60))
         else None
     | _ \<Rightarrow> None)"

text \<open>The fraction of a second in nanoseconds, and what follows it.\<close>

definition parse_fraction :: "string \<Rightarrow> (int \<times> string) option" where
  "parse_fraction s = (case s of
       c # r \<Rightarrow>
         if c = CHR ''.'' \<or> c = CHR '',''
         then (let ds = takeWhile is_digit r
           in if ds = [] then None
              else Some (int (digits_val (take 9 (ds @ replicate 9 (CHR ''0'')))), dropWhile is_digit r))
         else Some (0, s)
     | [] \<Rightarrow> Some (0, s))"

definition parse_RFC3339 :: "string \<Rightarrow> time option" where
  "parse_RFC3339 s =
     (if length s < 20 then None
      else let f = (\<lambda>i n. take n (drop i s)); v = (\<lambda>i n. int (digits_val (take n (drop i s))))
        in if list_all is_digit (f 0 4 @ f 5 2 @ f 8 2 @ f 11 2 @ f 14 2 @ f 17 2)
             \<and> f 4 1 = ''-'' \<and> f 7 1 = ''-'' \<and> f 10 1 = ''T'' \<and> f 13 1 = '':'' \<and> f 16 1 = '':''
             \<and> 1 \<le> v 5 2 \<and> v 5 2 \<le> 12 \<and> 1 \<le> v 8 2 \<and> v 8 2 \<le> days_in (v 0 4) (v 5 2)
             \<and> v 11 2 < 24 \<and> v 14 2 < 60 \<and> v 17 2 < 60
           then (case parse_fraction (drop 19 s) of None \<Rightarrow> None
             | Some (ns, r) \<Rightarrow> (case parse_zone r of None \<Rightarrow> None
                 | Some off \<Rightarrow> Some ((days_from_civil (v 0 4) (v 5 2) (v 8 2) * 86400
                       + v 11 2 * 3600 + v 14 2 * 60 + v 17 2 - off) * 10 ^ 9 + ns)))
           else None)"

subsection \<open>ExecutionControls, ExecutionMetadata, Apply\<close>

record ExecutionControls =
  ec_ReservedMetadata :: "metadata option"
  ec_EconomicVersion :: int
  ec_AllowOverdraft :: bool
  ec_Inflight :: bool
  ec_Atomic :: bool
  ec_SkipQueue :: bool
  ec_SkipBalanceUpdate :: bool
  ec_ParentKind :: string
  ec_QueuedParent :: string
  ec_QueueLane :: string
  ec_ShadowFor :: string
  ec_GroupIDs :: "string list option"
  ec_Sources :: "Distribution list option"
  ec_Destinations :: "Distribution list option"
  ec_InflightExpiryDate :: time
  ec_InflightCommitDate :: time

definition zero_ExecutionControls :: ExecutionControls where
  "zero_ExecutionControls = \<lparr>
     ec_ReservedMetadata = None, ec_EconomicVersion = 0, ec_AllowOverdraft = False, ec_Inflight = False,
     ec_Atomic = False, ec_SkipQueue = False, ec_SkipBalanceUpdate = False, ec_ParentKind = [],
     ec_QueuedParent = [], ec_QueueLane = [], ec_ShadowFor = [], ec_GroupIDs = None,
     ec_Sources = None, ec_Destinations = None,
     ec_InflightExpiryDate = zero_time, ec_InflightCommitDate = zero_time\<rparr>"

definition ExecutionMetadata :: "Transaction \<Rightarrow> metadata option" where
  "ExecutionMetadata t = (case tx_ReservedMetadata t of Some m \<Rightarrow> Some m | None \<Rightarrow> tx_MetaData t)"

text \<open>A lookup in a map that may be nil.\<close>

definition meta_get :: "metadata option \<Rightarrow> string \<Rightarrow> json option" where
  "meta_get m k = (case m of None \<Rightarrow> None | Some al \<Rightarrow> map_of al k)"

definition reserved_keys :: "string list" where
  "reserved_keys = [''LEDGERFORGE_LINEAGE_PROVIDER'', ''_lineage_type'', ''_provider'', ''_main_balance'', ''_allocation'']"

definition reserved_metadata :: "metadata option \<Rightarrow> metadata" where
  "reserved_metadata m =
     concat (map (\<lambda>k. case meta_get m k of None \<Rightarrow> [] | Some v \<Rightarrow> [(k, v)]) reserved_keys)"

definition ExecutionControls_of :: "Transaction \<Rightarrow> ExecutionControls" where
  "ExecutionControls_of t = \<lparr>
     ec_ReservedMetadata = Some (reserved_metadata (ExecutionMetadata t)), ec_EconomicVersion = 1,
     ec_AllowOverdraft = tx_AllowOverdraft t, ec_Inflight = tx_Inflight t, ec_Atomic = tx_Atomic t,
     ec_SkipQueue = tx_SkipQueue t, ec_SkipBalanceUpdate = tx_SkipBalanceUpdate t,
     ec_ParentKind = tx_ParentKind t, ec_QueuedParent = tx_QueuedParent t,
     ec_QueueLane = tx_QueueLane t, ec_ShadowFor = tx_ShadowFor t,
     ec_GroupIDs = tx_GroupIds t, ec_Sources = tx_Sources t, ec_Destinations = tx_Destinations t,
     ec_InflightExpiryDate = tx_InflightExpiryDate t, ec_InflightCommitDate = tx_InflightCommitDate t\<rparr>"

definition Apply_controls :: "ExecutionControls \<Rightarrow> Transaction \<Rightarrow> Transaction" where
  "Apply_controls c t = t\<lparr>
     tx_ReservedMetadata := (case ec_ReservedMetadata c of None \<Rightarrow> Some [] | Some m \<Rightarrow> Some m),
     tx_AllowOverdraft := ec_AllowOverdraft c, tx_Inflight := ec_Inflight c, tx_Atomic := ec_Atomic c,
     tx_SkipQueue := ec_SkipQueue c, tx_SkipBalanceUpdate := ec_SkipBalanceUpdate c,
     tx_ParentKind := ec_ParentKind c, tx_QueuedParent := ec_QueuedParent c,
     tx_QueueLane := ec_QueueLane c, tx_ShadowFor := ec_ShadowFor c,
     tx_GroupIds := ec_GroupIDs c, tx_Sources := ec_Sources c, tx_Destinations := ec_Destinations c,
     tx_InflightExpiryDate := ec_InflightExpiryDate c, tx_InflightCommitDate := ec_InflightCommitDate c\<rparr>"

subsection \<open>JSON form of the controls\<close>

text \<open>The tree of what \<open>json.Marshal\<close> writes for the struct.\<close>

definition marshal_Distribution :: "Distribution \<Rightarrow> json" where
  "marshal_Distribution d = JObj
     ([(''identifier'', JStr (di_Identifier d)), (''distribution'', JStr (di_Distribution d))]
      @ (if di_PreciseDistribution d = [] then [] else [(''precise_distribution'', JStr (di_PreciseDistribution d))])
      @ [(''transaction_id'', JStr (di_TransactionID d))])"

definition marshal_slice :: "('a \<Rightarrow> json) \<Rightarrow> 'a list option \<Rightarrow> json" where
  "marshal_slice f xs = (case xs of None \<Rightarrow> JNull | Some ys \<Rightarrow> JArr (map f ys))"

definition marshal_ExecutionControls :: "ExecutionControls \<Rightarrow> json" where
  "marshal_ExecutionControls c = JObj [
     (''reserved_metadata'', case ec_ReservedMetadata c of None \<Rightarrow> JNull | Some m \<Rightarrow> JObj m),
     (''economic_version'', JNum (Fin (of_int (ec_EconomicVersion c)))),
     (''allow_overdraft'', JBool (ec_AllowOverdraft c)),
     (''inflight'', JBool (ec_Inflight c)),
     (''atomic'', JBool (ec_Atomic c)),
     (''skip_queue'', JBool (ec_SkipQueue c)),
     (''skip_balance_update'', JBool (ec_SkipBalanceUpdate c)),
     (''parent_kind'', JStr (ec_ParentKind c)),
     (''queued_parent'', JStr (ec_QueuedParent c)),
     (''queue_lane'', JStr (ec_QueueLane c)),
     (''shadow_for'', JStr (ec_ShadowFor c)),
     (''group_ids'', marshal_slice JStr (ec_GroupIDs c)),
     (''sources'', marshal_slice marshal_Distribution (ec_Sources c)),
     (''destinations'', marshal_slice marshal_Distribution (ec_Destinations c)),
     (''inflight_expiry_date'', JStr (Format_RFC3339Nano (ec_InflightExpiryDate c))),
     (''inflight_commit_date'', JStr (Format_RFC3339Nano (ec_InflightCommitDate c)))]"

text \<open>The decoders of one field: the value so far and the JSON value; \<^const>\<open>None\<close> is a type error.\<close>

fun dec_bool :: "json \<Rightarrow> bool \<Rightarrow> bool option" where
  "dec_bool JNull old = Some old"
| "dec_bool (JBool b) old = Some b"
| "dec_bool j old = None"

fun dec_string :: "json \<Rightarrow> string \<Rightarrow> string option" where
  "dec_string JNull old = Some old"
| "dec_string (JStr s) old = Some s"
| "dec_string j old = None"

fun dec_int :: "json \<Rightarrow> int \<Rightarrow> int option" where
  "dec_int JNull old = Some old"
| "dec_int (JNum (Fin r)) old =
     (if of_int \<lfloor>r\<rfloor> = r \<and> - (2 ^ 63) \<le> \<lfloor>r\<rfloor> \<and> \<lfloor>r\<rfloor> < 2 ^ 63 then Some \<lfloor>r\<rfloor> else None)"
| "dec_int j old = None"

fun dec_time :: "json \<Rightarrow> time \<Rightarrow> time option" where
  "dec_time JNull old = Some old"
| "dec_time (JStr s) old = parse_RFC3339 s"
| "dec_time j old = None"

fun dec_map :: "json \<Rightarrow> metadata option \<Rightarrow> metadata option option" where
  "dec_map JNull old = Some None"
| "dec_map (JObj m) old = Some (Some m)"
| "dec_map j old = None"

fun dec_list :: "('a \<Rightarrow> json \<Rightarrow> 'a option) \<Rightarrow> 'a \<Rightarrow> json list \<Rightarrow> 'a list option" where
  "dec_list f z [] = Some []"
| "dec_list f z (j # js) = (case f z j of None \<Rightarrow> None
     | Some x \<Rightarrow> (case dec_list f z js of None \<Rightarrow> None | Some xs \<Rightarrow> Some (x # xs)))"

fun dec_slice :: "('a \<Rightarrow> json \<Rightarrow> 'a option) \<Rightarrow> 'a \<Rightarrow> json \<Rightarrow> 'a list option option" where
  "dec_slice f z JNull = Some None"
| "dec_slice f z (JArr js) = map_option Some (dec_list f z js)"
| "dec_slice f z j = None"

text \<open>A struct: its field setter applied to the entries of the object in turn.\<close>

fun dec_entries :: "(string \<Rightarrow> json \<Rightarrow> 'a \<Rightarrow> 'a option) \<Rightarrow> (string \<times> json) list \<Rightarrow> 'a \<Rightarrow> 'a option" where
  "dec_entries put [] x = Some x"
| "dec_entries put ((k, v) # es) x = (case put k v x of None \<Rightarrow> None | Some y \<Rightarrow> dec_entries put es y)"

fun dec_struct :: "(string \<Rightarrow> json \<Rightarrow> 'a \<Rightarrow> 'a option) \<Rightarrow> 'a \<Rightarrow> json \<Rightarrow> 'a option" where
  "dec_struct put x JNull = Some x"
| "dec_struct put x (JObj es) = dec_entries put es x"
| "dec_struct put x j = None"

definition set_Distribution :: "string \<Rightarrow> json \<Rightarrow> Distribution \<Rightarrow> Distribution option" where
  "set_Distribution key v d =
     (let k = ToLower key in
      if k = ''identifier'' then map_option (\<lambda>x. d\<lparr>di_Identifier := x\<rparr>) (dec_string v (di_Identifier d))
      else if k = ''distribution'' then map_option (\<lambda>x. d\<lparr>di_Distribution := x\<rparr>) (dec_string v (di_Distribution d))
      else if k = ''precise_distribution''
        then map_option (\<lambda>x. d\<lparr>di_PreciseDistribution := x\<rparr>) (dec_string v (di_PreciseDistribution d))
      else if k = ''transaction_id'' then map_option (\<lambda>x. d\<lparr>di_TransactionID := x\<rparr>) (dec_string v (di_TransactionID d))
      else Some d)"

definition zero_Distribution :: Distribution where
  "zero_Distribution = \<lparr>di_Identifier = [], di_Distribution = [], di_PreciseDistribution = [], di_TransactionID = []\<rparr>"

abbreviation dec_Distributions :: "json \<Rightarrow> Distribution list option option" where
  "dec_Distributions \<equiv> dec_slice (dec_struct set_Distribution) zero_Distribution"

definition set_ExecutionControls :: "string \<Rightarrow> json \<Rightarrow> ExecutionControls \<Rightarrow> ExecutionControls option" where
  "set_ExecutionControls key v c =
     (let k = ToLower key in
      if k = ''reserved_metadata'' then map_option (\<lambda>x. c\<lparr>ec_ReservedMetadata := x\<rparr>) (dec_map v (ec_ReservedMetadata c))
      else if k = ''economic_version'' then map_option (\<lambda>x. c\<lparr>ec_EconomicVersion := x\<rparr>) (dec_int v (ec_EconomicVersion c))
      else if k = ''allow_overdraft'' then map_option (\<lambda>x. c\<lparr>ec_AllowOverdraft := x\<rparr>) (dec_bool v (ec_AllowOverdraft c))
      else if k = ''inflight'' then map_option (\<lambda>x. c\<lparr>ec_Inflight := x\<rparr>) (dec_bool v (ec_Inflight c))
      else if k = ''atomic'' then map_option (\<lambda>x. c\<lparr>ec_Atomic := x\<rparr>) (dec_bool v (ec_Atomic c))
      else if k = ''skip_queue'' then map_option (\<lambda>x. c\<lparr>ec_SkipQueue := x\<rparr>) (dec_bool v (ec_SkipQueue c))
      else if k = ''skip_balance_update'' then map_option (\<lambda>x. c\<lparr>ec_SkipBalanceUpdate := x\<rparr>) (dec_bool v (ec_SkipBalanceUpdate c))
      else if k = ''parent_kind'' then map_option (\<lambda>x. c\<lparr>ec_ParentKind := x\<rparr>) (dec_string v (ec_ParentKind c))
      else if k = ''queued_parent'' then map_option (\<lambda>x. c\<lparr>ec_QueuedParent := x\<rparr>) (dec_string v (ec_QueuedParent c))
      else if k = ''queue_lane'' then map_option (\<lambda>x. c\<lparr>ec_QueueLane := x\<rparr>) (dec_string v (ec_QueueLane c))
      else if k = ''shadow_for'' then map_option (\<lambda>x. c\<lparr>ec_ShadowFor := x\<rparr>) (dec_string v (ec_ShadowFor c))
      else if k = ''group_ids''
        then map_option (\<lambda>x. c\<lparr>ec_GroupIDs := x\<rparr>) (dec_slice (\<lambda>old j. dec_string j old) [] v)
      else if k = ''sources'' then map_option (\<lambda>x. c\<lparr>ec_Sources := x\<rparr>) (dec_Distributions v)
      else if k = ''destinations'' then map_option (\<lambda>x. c\<lparr>ec_Destinations := x\<rparr>) (dec_Distributions v)
      else if k = ''inflight_expiry_date''
        then map_option (\<lambda>x. c\<lparr>ec_InflightExpiryDate := x\<rparr>) (dec_time v (ec_InflightExpiryDate c))
      else if k = ''inflight_commit_date''
        then map_option (\<lambda>x. c\<lparr>ec_InflightCommitDate := x\<rparr>) (dec_time v (ec_InflightCommitDate c))
      else Some c)"

definition set_schema :: "string \<Rightarrow> json \<Rightarrow> int \<Rightarrow> int option" where
  "set_schema key v n = (if ToLower key = ''economic_version'' then dec_int v n else Some n)"

subsection \<open>DecodeExecutionControls, DecodeTransactionMetadata\<close>

definition json_type_error :: go_error where
  "json_type_error = ErrorString ''json: cannot unmarshal value into Go value''"

text \<open>The checked type assertions \<open>legacy[k].(bool)\<close> and \<open>legacy[k].(string)\<close>.\<close>

definition legacy_bool :: "metadata option \<Rightarrow> string \<Rightarrow> bool" where
  "legacy_bool m k = (case meta_get m k of Some (JBool b) \<Rightarrow> b | _ \<Rightarrow> False)"

definition legacy_string :: "metadata option \<Rightarrow> string \<Rightarrow> string" where
  "legacy_string m k = (case meta_get m k of Some (JStr s) \<Rightarrow> s | _ \<Rightarrow> [])"

definition legacy_map :: "metadata option \<Rightarrow> string \<Rightarrow> metadata option" where
  "legacy_map m k = (case meta_get m k of Some (JObj o') \<Rightarrow> Some o' | _ \<Rightarrow> None)"

definition DecodeExecutionControls :: "json \<Rightarrow> go_error + ExecutionControls" where
  "DecodeExecutionControls data = (case dec_struct set_schema 0 data of
       None \<Rightarrow> Inl json_type_error
     | Some version \<Rightarrow>
         if version \<noteq> 0
         then (case dec_struct set_ExecutionControls zero_ExecutionControls data of
             None \<Rightarrow> Inl json_type_error | Some c \<Rightarrow> Inr c)
         else (case dec_map data None of
             None \<Rightarrow> Inl json_type_error
           | Some legacy \<Rightarrow> Inr (zero_ExecutionControls\<lparr>
               ec_ReservedMetadata := legacy_map legacy ''reserved_metadata'',
               ec_AllowOverdraft := legacy_bool legacy ''allow_overdraft'',
               ec_Inflight := legacy_bool legacy ''inflight'',
               ec_Atomic := legacy_bool legacy ''atomic'',
               ec_QueuedParent := legacy_string legacy ''queued_parent'',
               ec_ShadowFor := legacy_string legacy ''shadow_for'',
               ec_QueueLane := (if legacy_string legacy ''queue_lane'' = ''hot'' then ''hot'' else ''normal'')\<rparr>)))"

text \<open>
  The projection the store reads: customer metadata with the controls under a marker key. The
  marker's value is re-marshalled before decoding, which keeps the tree.
\<close>

definition DecodeTransactionMetadata :: "json \<Rightarrow> Transaction \<Rightarrow> go_error + Transaction" where
  "DecodeTransactionMetadata data t = (case dec_map data (tx_MetaData t) of
       None \<Rightarrow> Inl json_type_error
     | Some m \<Rightarrow> (case meta_get m ''__execution_controls'' of
           None \<Rightarrow> Inr (t\<lparr>tx_MetaData := m\<rparr>)
         | Some raw \<Rightarrow> bindE (DecodeExecutionControls raw) (\<lambda>c.
             Inr ((Apply_controls c t)\<lparr>tx_MetaData := map_option (AList.delete ''__execution_controls'') m\<rparr>))))"

subsection \<open>ValidateCustomerTransactionMetadata\<close>

definition reserved_execution_keys :: "string list" where
  "reserved_execution_keys = [
     ''allow_overdraft'', ''overdraft_limit'', ''inflight'', ''atomic'', ''skip_queue'', ''skip_balance_update'',
     ''queue_action'', ''queue_lane'', ''queue_pair_key'', ''queued_parent_transaction'', ''queued_parent'',
     ''parent_kind'', ''shadow_for'', ''_shadow_for'', ''group_ids'', ''sources'', ''destinations'', ''scheduled_for'',
     ''inflight_expiry_date'', ''inflight_commit_date'', ''__execution_controls'', ''economic_version'',
     ''execution_metadata'', ''ledgerforge_lineage_provider'', ''ledgerforge_fund_allocation'', ''_lineage_type'',
     ''_provider'', ''_main_balance'', ''_allocation'']"

definition reserved_key :: "string \<Rightarrow> bool" where
  "reserved_key key \<longleftrightarrow> ToLower key \<in> set reserved_execution_keys
     \<or> HasPrefix (ToLower key) ''policy_'' \<or> HasPrefix (ToLower key) ''recovery_''"

text \<open>The error names the first reserved key met; the order of a Go map range is not fixed.\<close>

definition ValidateCustomerTransactionMetadata :: "metadata \<Rightarrow> go_error option" where
  "ValidateCustomerTransactionMetadata m =
     map_option (\<lambda>p. ErrorString (''reserved transaction execution metadata key: '' @ fst p))
       (find (\<lambda>p. reserved_key (fst p)) m)"

subsection \<open>Lemmas\<close>

lemma ToLower_id: "list_all (\<lambda>c. lower_char c = c) s \<Longrightarrow> ToLower s = s"
  unfolding ToLower_def by (simp add: list_all_iff map_idI)

lemma dec_list_map: "(\<And>x. x \<in> set xs \<Longrightarrow> f z (g x) = Some x) \<Longrightarrow> dec_list f z (map g xs) = Some xs"
  by (induction xs) auto

lemma dec_slice_marshal:
  "(\<And>x. f z (g x) = Some x) \<Longrightarrow> dec_slice f z (marshal_slice g xs) = Some xs"
  by (cases xs) (auto simp: marshal_slice_def dec_list_map)

lemma lower_literals:
  "ToLower ''identifier'' = ''identifier''" "ToLower ''distribution'' = ''distribution''"
  "ToLower ''precise_distribution'' = ''precise_distribution''" "ToLower ''transaction_id'' = ''transaction_id''"
  "ToLower ''reserved_metadata'' = ''reserved_metadata''" "ToLower ''economic_version'' = ''economic_version''"
  "ToLower ''allow_overdraft'' = ''allow_overdraft''" "ToLower ''inflight'' = ''inflight''"
  "ToLower ''atomic'' = ''atomic''" "ToLower ''skip_queue'' = ''skip_queue''"
  "ToLower ''skip_balance_update'' = ''skip_balance_update''" "ToLower ''parent_kind'' = ''parent_kind''"
  "ToLower ''queued_parent'' = ''queued_parent''" "ToLower ''queue_lane'' = ''queue_lane''"
  "ToLower ''shadow_for'' = ''shadow_for''" "ToLower ''group_ids'' = ''group_ids''"
  "ToLower ''sources'' = ''sources''" "ToLower ''destinations'' = ''destinations''"
  "ToLower ''inflight_expiry_date'' = ''inflight_expiry_date''"
  "ToLower ''inflight_commit_date'' = ''inflight_commit_date''"
  by (code_simp)+

lemma Distribution_roundtrip: "dec_struct set_Distribution zero_Distribution (marshal_Distribution d) = Some d"
  by (cases d) (simp add: marshal_Distribution_def set_Distribution_def zero_Distribution_def lower_literals)

lemma schema_roundtrip:
  assumes "- (2 ^ 63) \<le> ec_EconomicVersion c" "ec_EconomicVersion c < 2 ^ 63"
  shows "dec_struct set_schema 0 (marshal_ExecutionControls c) = Some (ec_EconomicVersion c)"
  using assms by (simp add: marshal_ExecutionControls_def set_schema_def lower_literals)

lemma dec_map_marshal:
  "dec_map (case m of None \<Rightarrow> JNull | Some x \<Rightarrow> JObj x) old = Some m"
  by (cases m) simp_all

lemma ExecutionControls_roundtrip:
  assumes "- (2 ^ 63) \<le> ec_EconomicVersion c" "ec_EconomicVersion c < 2 ^ 63"
    and "parse_RFC3339 (Format_RFC3339Nano (ec_InflightExpiryDate c)) = Some (ec_InflightExpiryDate c)"
    and "parse_RFC3339 (Format_RFC3339Nano (ec_InflightCommitDate c)) = Some (ec_InflightCommitDate c)"
  shows "dec_struct set_ExecutionControls zero_ExecutionControls (marshal_ExecutionControls c) = Some c"
proof -
  note slices = dec_slice_marshal [of "\<lambda>old j. dec_string j old" "[]" JStr]
    dec_slice_marshal [of "dec_struct set_Distribution" zero_Distribution, OF Distribution_roundtrip]
  show ?thesis
    using assms
    by (simp add: marshal_ExecutionControls_def set_ExecutionControls_def lower_literals slices
        dec_map_marshal zero_ExecutionControls_def)
qed

lemma map_of_concat_lookup:
  "distinct ks \<Longrightarrow> map_of (concat (map (\<lambda>k. case f k of None \<Rightarrow> [] | Some v \<Rightarrow> [(k, v)]) ks)) k =
     (if k \<in> set ks then f k else None)"
  by (induction ks) (auto simp: map_add_def split: option.splits)

lemma reserved_metadata_idem: "reserved_metadata (Some (reserved_metadata m)) = reserved_metadata m"
proof -
  have d: "distinct reserved_keys" by (simp add: reserved_keys_def)
  have "meta_get (Some (reserved_metadata m)) k = meta_get m k" if "k \<in> set reserved_keys" for k
    unfolding reserved_metadata_def using map_of_concat_lookup [OF d, of "meta_get m" k] that
    by (simp add: meta_get_def)
  then show ?thesis unfolding reserved_metadata_def [of "Some _"]
    by (simp add: reserved_metadata_def [of m] cong: map_cong)
qed

lemma delete_marker:
  "k \<notin> fst ` set m \<Longrightarrow> AList.delete k (m @ [(k, v)]) = m"
  by (induction m) auto

lemma reserved_metadata_none:
  "(\<And>k. k \<in> set reserved_keys \<Longrightarrow> k \<notin> fst ` set m) \<Longrightarrow> reserved_metadata (Some m) = []"
  unfolding reserved_metadata_def meta_get_def
  by (auto simp: map_of_eq_None_iff [symmetric] split: option.splits)

lemma lower_reserved_keys: "k \<in> set reserved_keys \<Longrightarrow> ToLower k \<in> set reserved_execution_keys"
proof -
  have "map ToLower reserved_keys =
      [''ledgerforge_lineage_provider'', ''_lineage_type'', ''_provider'', ''_main_balance'', ''_allocation'']"
    by code_simp
  then have "set (map ToLower reserved_keys) \<subseteq> set reserved_execution_keys"
    by (simp add: reserved_execution_keys_def)
  then show "k \<in> set reserved_keys \<Longrightarrow> ?thesis" by auto
qed

lemma legacy_bool_iff: "legacy_bool (Some es) k \<longleftrightarrow> map_of es k = Some (JBool True)"
  by (auto simp: legacy_bool_def meta_get_def split: option.splits json.splits)

lemma legacy_string_iff: "s \<noteq> [] \<Longrightarrow> legacy_string (Some es) k = s \<longleftrightarrow> map_of es k = Some (JStr s)"
  by (auto simp: legacy_string_def meta_get_def split: option.splits json.splits)

lemma Validate_None_iff:
  "ValidateCustomerTransactionMetadata m = None \<longleftrightarrow> (\<forall>k \<in> fst ` set m. \<not> reserved_key k)"
  by (auto simp: ValidateCustomerTransactionMetadata_def find_None_iff)

subsection \<open>Properties\<close>


definition ex_controls_txn :: Transaction where
  "ex_controls_txn = zero_Transaction\<lparr>tx_Inflight := True, tx_QueueLane := ''hot'',
     tx_Sources := Some [\<lparr>di_Identifier = ''bln_a'', di_Distribution = ''left'', di_PreciseDistribution = [],
                          di_TransactionID = []\<rparr>],
     tx_MetaData := Some [(''_provider'', JStr ''stripe'')],
     tx_InflightExpiryDate := 1709210096 * 10 ^ 9\<rparr>"

lemma ex_controls_dates:
  "parse_RFC3339 (Format_RFC3339Nano (tx_InflightExpiryDate ex_controls_txn)) = Some (tx_InflightExpiryDate ex_controls_txn)"
  "parse_RFC3339 (Format_RFC3339Nano (tx_InflightCommitDate ex_controls_txn)) = Some (tx_InflightCommitDate ex_controls_txn)"
  by code_simp+




text \<open>
  C31: Customer metadata that passes the guard carries no execution decision: a new transaction
  with that metadata has no reserved lineage metadata in its controls, whatever the case the
  customer's keys are written in.
\<close>

theorem validated_metadata_inert:
  assumes "ValidateCustomerTransactionMetadata m = None" "tx_ReservedMetadata t = None" "tx_MetaData t = Some m"
  shows "ec_ReservedMetadata (ExecutionControls_of t) = Some []"
proof -
  have "k \<notin> fst ` set m" if "k \<in> set reserved_keys" for k
    using assms(1) lower_reserved_keys [OF that] unfolding Validate_None_iff reserved_key_def by blast
  then have "reserved_metadata (Some m) = []" by (rule reserved_metadata_none)
  with assms show ?thesis by (simp add: ExecutionControls_of_def ExecutionMetadata_def)
qed

theorem validated_metadata_inert_witness:
  "ec_ReservedMetadata (ExecutionControls_of (zero_Transaction\<lparr>tx_MetaData := Some [(''note'', JStr ''x'')]\<rparr>)) = Some []"
proof (rule validated_metadata_inert)
  show "ValidateCustomerTransactionMetadata [(''note'', JStr ''x'')] = None" by code_simp
qed (simp_all add: zero_Transaction_def)

end
