(* ===== verification/Lineage.thy ===== *)
theory Lineage
  imports Exec_Controls Go_Json
begin

section \<open>Fund lineage: sources and allocation (core/lineage\_allocation*.go)\<close>

text \<open>
  A balance that tracks fund lineage has one shadow balance per provider of funds. A debit is
  attributed to providers: \<open>getLineageSources\<close> reads what is left on the shadow balances,
  \<open>calculateAllocation\<close> spreads the amount over them by the balance's strategy, and
  \<open>buildFundAllocationList\<close> renders the result for the transaction's metadata. The theory
  models these functions and the references and names of the shadow transactions, and shows
  what each strategy allocates: in full and oldest (or newest) first for FIFO and LIFO, within
  one unit per source for PROPORTIONAL.

  \<open>LineageSource.Balance\<close> and \<open>Allocation.Amount\<close> are \<open>*big.Int\<close> in the source;
  every value of the two types is built with a fresh integer, so they are \<^typ>\<open>int\<close> here.
  \<open>sort.Slice\<close> is an argument of the model: it is not stable, so the order it gives to
  sources of one creation time is not determined, and the lemmas rest on its contract.
\<close>

subsection \<open>sort.Slice\<close>

locale slice_sort =
  fixes sort_Slice :: "('a \<Rightarrow> 'a \<Rightarrow> bool) \<Rightarrow> 'a list \<Rightarrow> 'a list"
  assumes sort_Slice_perm: "mset (sort_Slice lt xs) = mset xs"
    and sort_Slice_sorted: "asymp lt \<Longrightarrow> transp (\<lambda>x y. \<not> lt y x) \<Longrightarrow>
      sorted_wrt (\<lambda>x y. \<not> lt y x) (sort_Slice lt xs)"
begin

lemma sort_Slice_set: "set (sort_Slice lt xs) = set xs"
  by (metis sort_Slice_perm mset_eq_setD)

lemma sort_Slice_sum: "sum_list (map f (sort_Slice lt xs)) = (sum_list (map f xs) :: int)"
  by (rule sum_list_map_perm [OF sort_Slice_perm])

lemma sort_Slice_distinct: "distinct (map f (sort_Slice lt xs)) \<longleftrightarrow> distinct (map f xs)"
  by (metis mset_eq_imp_distinct_iff mset_map sort_Slice_perm)

end

text \<open>
  The insertion sort \<open>sort.Slice\<close> runs on slices of at most twelve elements: each element is
  swapped down while it is less than its left neighbour. The sorted prefix is kept reversed.
\<close>

fun sift_down :: "('a \<Rightarrow> 'a \<Rightarrow> bool) \<Rightarrow> 'a \<Rightarrow> 'a list \<Rightarrow> 'a list" where
  "sift_down lt x [] = [x]"
| "sift_down lt x (y # ys) = (if lt x y then y # sift_down lt x ys else x # y # ys)"

definition insertionSort :: "('a \<Rightarrow> 'a \<Rightarrow> bool) \<Rightarrow> 'a list \<Rightarrow> 'a list" where
  "insertionSort lt xs = rev (fold (sift_down lt) xs [])"

lemma mset_sift_down [simp]: "mset (sift_down lt x ys) = add_mset x (mset ys)"
  by (induction ys) auto

lemma set_sift_down [simp]: "set (sift_down lt x ys) = insert x (set ys)"
  by (induction ys) auto

lemma sorted_sift_down:
  assumes "asymp lt" "transp (\<lambda>x y. \<not> lt y x)"
  shows "sorted_wrt (\<lambda>x y. \<not> lt x y) ys \<Longrightarrow> sorted_wrt (\<lambda>x y. \<not> lt x y) (sift_down lt x ys)"
proof (induction ys)
  case (Cons y ys)
  have "\<not> lt x z" if "\<not> lt x y" "\<not> lt y z" for z
    using assms(2) that unfolding transp_on_def by blast
  moreover have "\<not> lt y x" if "lt x y" using assms(1) that by (rule asympD)
  ultimately show ?case using Cons by auto
qed simp

lemma mset_fold_sift_down: "mset (fold (sift_down lt) xs acc) = mset xs + mset acc"
  by (induction xs arbitrary: acc) auto

lemma sorted_fold_sift_down:
  assumes "asymp lt" "transp (\<lambda>x y. \<not> lt y x)"
  shows "sorted_wrt (\<lambda>x y. \<not> lt x y) acc \<Longrightarrow>
    sorted_wrt (\<lambda>x y. \<not> lt x y) (fold (sift_down lt) xs acc)"
  by (induction xs arbitrary: acc) (auto intro: sorted_sift_down [OF assms])

interpretation insertion: slice_sort insertionSort
proof
  show "mset (insertionSort lt xs) = mset xs" for lt and xs :: "'a list"
    by (simp add: insertionSort_def mset_fold_sift_down)
  show "sorted_wrt (\<lambda>x y. \<not> lt y x) (insertionSort lt xs)"
    if "asymp lt" "transp (\<lambda>x y. \<not> lt y x)" for lt and xs :: "'a list"
    using sorted_fold_sift_down [OF that, of "[]" xs] by (simp add: insertionSort_def sorted_wrt_rev)
qed

subsection \<open>Types and constants (core/lineage.go)\<close>

definition LineageProviderKey :: string where "LineageProviderKey = ''LEDGERFORGE_LINEAGE_PROVIDER''"
definition LineageFundAllocation :: string where "LineageFundAllocation = ''LEDGERFORGE_FUND_ALLOCATION''"

definition AllocationFIFO :: string where "AllocationFIFO = ''FIFO''"
definition AllocationLIFO :: string where "AllocationLIFO = ''LIFO''"
definition AllocationProp :: string where "AllocationProp = ''PROPORTIONAL''"

lemmas strategy_defs = AllocationFIFO_def AllocationLIFO_def AllocationProp_def

record LineageSource =
  ls_BalanceID :: string
  ls_Balance :: int
  ls_CreatedAt :: time

record Allocation =
  al_BalanceID :: string
  al_Amount :: int

record ProviderBreakdown =
  pb_Provider :: string
  pb_Amount :: int
  pb_Available :: int
  pb_Spent :: int
  pb_BalanceID :: string

record BalanceLineage =
  bl_BalanceID :: string
  bl_TotalWithLineage :: int
  bl_AggregateBalanceID :: string
  bl_Providers :: "ProviderBreakdown list"

subsection \<open>Sources (getLineageSources)\<close>

text \<open>
  \<open>balances\<close> is what \<open>GetBalancesByIDsLite\<close> returns for the shadow balance ids: an error, or
  the rows found, by balance id.
\<close>

definition lineage_source :: "(string \<Rightarrow> Balance option) \<Rightarrow> LineageMapping \<Rightarrow> LineageSource list" where
  "lineage_source balances m = (case balances (lm_ShadowBalanceID m) of
       None \<Rightarrow> []
     | Some b \<Rightarrow> (case (bal_DebitBalance b, bal_CreditBalance b) of
         (Some d, Some c) \<Rightarrow>
           if 0 < d \<and> 0 < d - c
           then [\<lparr>ls_BalanceID = lm_ShadowBalanceID m, ls_Balance = d - c, ls_CreatedAt = lm_CreatedAt m\<rparr>]
           else []
       | _ \<Rightarrow> []))"

definition getLineageSources ::
  "(string list \<Rightarrow> go_error + (string \<Rightarrow> Balance option)) \<Rightarrow> LineageMapping list \<Rightarrow> go_error + LineageSource list"
where
  "getLineageSources GetBalancesByIDsLite mappings =
     (if mappings = [] then Inr []
      else case GetBalancesByIDsLite (map lm_ShadowBalanceID mappings) of
        Inl e \<Rightarrow> Inl (errorf_w ''failed to fetch shadow balances'' e)
      | Inr balances \<Rightarrow> Inr (concat (map (lineage_source balances) mappings)))"

subsection \<open>Allocation\<close>

text \<open>The loop of \<open>sequentialAllocation\<close>: the sources still to visit and what remains.\<close>

fun sequential_loop :: "LineageSource list \<Rightarrow> int \<Rightarrow> Allocation list" where
  "sequential_loop [] remaining = []"
| "sequential_loop (s # ss) remaining =
     (if remaining \<le> 0 then []
      else let alloc = (if remaining \<le> ls_Balance s then remaining else ls_Balance s)
        in if alloc \<le> 0 then sequential_loop ss remaining
           else \<lparr>al_BalanceID = ls_BalanceID s, al_Amount = alloc\<rparr> # sequential_loop ss (remaining - alloc))"

definition sequentialAllocation :: "LineageSource list \<Rightarrow> int \<Rightarrow> Allocation list" where
  "sequentialAllocation sources amount = (if amount \<le> 0 then [] else sequential_loop sources amount)"

text \<open>
  The loop of \<open>proportionalAllocation\<close>; the last source takes the remainder. \<open>big.Int.Div\<close> is
  Euclidean division, which is \<^const>\<open>divide\<close> on the positive divisor it has here.
\<close>

fun proportional_loop :: "int \<Rightarrow> int \<Rightarrow> LineageSource list \<Rightarrow> int \<Rightarrow> Allocation list" where
  "proportional_loop effective tot [] remaining = []"
| "proportional_loop effective tot (s # ss) remaining =
     (let share = (if ss = [] then remaining else (effective * ls_Balance s) div tot);
          alloc = (if ls_Balance s < share then ls_Balance s else share)
      in if alloc \<le> 0 then proportional_loop effective tot ss remaining
         else \<lparr>al_BalanceID = ls_BalanceID s, al_Amount = alloc\<rparr>
              # proportional_loop effective tot ss (remaining - alloc))"

definition proportionalAllocation :: "LineageSource list \<Rightarrow> int \<Rightarrow> Allocation list" where
  "proportionalAllocation sources amount =
     (if amount \<le> 0 then []
      else let tot = sum_list (map ls_Balance sources)
        in if tot = 0 then []
           else let effective = (if tot < amount then tot else amount)
             in proportional_loop effective tot sources effective)"

definition calculateAllocation ::
  "((LineageSource \<Rightarrow> LineageSource \<Rightarrow> bool) \<Rightarrow> LineageSource list \<Rightarrow> LineageSource list) \<Rightarrow>
   LineageSource list \<Rightarrow> int \<Rightarrow> string \<Rightarrow> Allocation list"
where
  "calculateAllocation sort_Slice sources amount strategy =
     (if sources = [] then []
      else if strategy = AllocationLIFO
        then sequentialAllocation (sort_Slice (\<lambda>a b. ls_CreatedAt b < ls_CreatedAt a) sources) amount
      else if strategy = AllocationProp then proportionalAllocation sources amount
      else sequentialAllocation (sort_Slice (\<lambda>a b. ls_CreatedAt a < ls_CreatedAt b) sources) amount)"

definition findMappingByShadowID :: "LineageMapping list \<Rightarrow> string \<Rightarrow> LineageMapping option" where
  "findMappingByShadowID mappings sid = find (\<lambda>m. lm_ShadowBalanceID m = sid) mappings"

text \<open>The entries of the metadata list; a \<open>*big.Int\<close> marshals as its decimal number.\<close>

definition buildFundAllocationList ::
  "Allocation list \<Rightarrow> LineageMapping list \<Rightarrow> (string \<times> int) list"
where
  "buildFundAllocationList allocations mappings =
     concat (map (\<lambda>a. case findMappingByShadowID mappings (al_BalanceID a) of
         None \<Rightarrow> []
       | Some m \<Rightarrow> [(lm_Provider m, al_Amount a)]) allocations)"

subsection \<open>Names and references of shadow balances and transactions\<close>

record Identity =
  id_IdentityID :: string
  id_IdentityType :: string
  id_OrganizationName :: string
  id_Category :: string
  id_FirstName :: string
  id_LastName :: string
  id_OtherNames :: string
  id_Gender :: string
  id_EmailAddress :: string
  id_PhoneNumber :: string
  id_Nationality :: string
  id_Street :: string
  id_Country :: string
  id_State :: string
  id_PostCode :: string
  id_City :: string
  id_DOB :: time
  id_CreatedAt :: time
  id_MetaData :: "metadata option"

definition getIdentityIdentifier :: "Identity \<Rightarrow> string" where
  "getIdentityIdentifier i =
     (let idPart = take 8 (id_IdentityID i)
      in if id_FirstName i \<noteq> [] \<and> id_LastName i \<noteq> []
         then ToLower (id_FirstName i @ ''_'' @ id_LastName i) @ ''_'' @ idPart
         else if id_OrganizationName i \<noteq> []
         then ToLower (map (\<lambda>c. if c = CHR '' '' then CHR ''_'' else c) (id_OrganizationName i)) @ ''_'' @ idPart
         else id_IdentityID i)"

definition releaseReference :: "string \<Rightarrow> string \<Rightarrow> string" where
  "releaseReference parentRef provider = parentRef @ ''_release_'' @ provider"

definition receiveReference :: "string \<Rightarrow> string \<Rightarrow> string" where
  "receiveReference parentRef provider = parentRef @ ''_receive_'' @ provider"

text \<open>The shadow transactions \<open>queueReleaseTransaction\<close>, \<open>queueReceiveTransaction\<close> and
  \<open>queueShadowCreditTransaction\<close> hand to the queue.\<close>

definition releaseTransaction ::
  "Transaction \<Rightarrow> Allocation \<Rightarrow> LineageMapping \<Rightarrow> Balance \<Rightarrow> Balance \<Rightarrow> Transaction"
where
  "releaseTransaction txn alloc mapping sourceBalance sourceAggBalance = zero_Transaction\<lparr>
     tx_Source := bal_BalanceID sourceAggBalance,
     tx_Destination := al_BalanceID alloc,
     tx_PreciseAmount := Some (al_Amount alloc),
     tx_Currency := bal_Currency sourceBalance,
     tx_Precision := tx_Precision txn,
     tx_Reference := releaseReference (tx_Reference txn) (lm_Provider mapping),
     tx_Description := ''Release '' @ lm_Provider mapping @ '' funds'',
     tx_ShadowFor := tx_TransactionID txn,
     tx_MetaData := Some [(''_shadow_for'', JStr (tx_TransactionID txn)), (''_provider'', JStr (lm_Provider mapping)),
       (''_lineage_type'', JStr ''release''), (''_main_balance'', JStr (bal_BalanceID sourceBalance)),
       (''_allocation'', JStr (bal_AllocationStrategy sourceBalance))],
     tx_SkipQueue := True,
     tx_Inflight := tx_Inflight txn\<rparr>"

definition receiveTransaction ::
  "Transaction \<Rightarrow> Allocation \<Rightarrow> LineageMapping \<Rightarrow> Balance \<Rightarrow> Balance \<Rightarrow> Balance \<Rightarrow> Balance \<Rightarrow> Transaction"
where
  "receiveTransaction txn alloc mapping sourceBalance destinationBalance destShadowBalance destAggBalance =
   zero_Transaction\<lparr>
     tx_Source := bal_BalanceID destShadowBalance,
     tx_Destination := bal_BalanceID destAggBalance,
     tx_PreciseAmount := Some (al_Amount alloc),
     tx_Currency := bal_Currency destinationBalance,
     tx_Precision := tx_Precision txn,
     tx_Reference := receiveReference (tx_Reference txn) (lm_Provider mapping),
     tx_Description := ''Receive '' @ lm_Provider mapping @ '' funds'',
     tx_ShadowFor := tx_TransactionID txn,
     tx_MetaData := Some [(''_shadow_for'', JStr (tx_TransactionID txn)), (''_provider'', JStr (lm_Provider mapping)),
       (''_lineage_type'', JStr ''receive''), (''_main_balance'', JStr (bal_BalanceID destinationBalance)),
       (''_from_balance'', JStr (bal_BalanceID sourceBalance))],
     tx_AllowOverdraft := True,
     tx_SkipQueue := True,
     tx_Inflight := tx_Inflight txn\<rparr>"

text \<open>\<open>new(big.Int).Set(txn.PreciseAmount)\<close> panics on a nil amount.\<close>

definition shadowCreditTransaction ::
  "Transaction \<Rightarrow> Balance \<Rightarrow> string \<Rightarrow> Balance \<Rightarrow> Balance \<Rightarrow> string \<Rightarrow> go_error + Transaction"
where
  "shadowCreditTransaction txn destBalance provider shadowBalance aggregateBalance identityID =
     (case tx_PreciseAmount txn of
       None \<Rightarrow> Inl (GoPanic ''nil pointer dereference'')
     | Some amount \<Rightarrow> Inr (zero_Transaction\<lparr>
         tx_Source := bal_BalanceID shadowBalance,
         tx_Destination := bal_BalanceID aggregateBalance,
         tx_Amount := tx_Amount txn,
         tx_PreciseAmount := Some amount,
         tx_Currency := bal_Currency destBalance,
         tx_Precision := tx_Precision txn,
         tx_Reference := tx_Reference txn @ ''_shadow_'' @ provider,
         tx_Description := ''Shadow credit from '' @ provider,
         tx_ShadowFor := tx_TransactionID txn,
         tx_MetaData := Some [(''_shadow_for'', JStr (tx_TransactionID txn)), (''_provider'', JStr provider),
           (''_identity_id'', JStr identityID), (''_lineage_type'', JStr ''credit''),
           (''_main_balance'', JStr (bal_BalanceID destBalance))],
         tx_AllowOverdraft := True,
         tx_SkipQueue := True,
         tx_Inflight := tx_Inflight txn\<rparr>))"

text \<open>
  \<open>remainingDebitAmount\<close>: \<open>byRef\<close> is the store's lookup of a transaction by reference
  (\<open>TransactionExistsByRef\<close> and \<open>GetTransactionByRef\<close>); the release of a provider is counted
  once for each mapping that names it.
\<close>

fun released_amount :: "(string \<Rightarrow> go_error + Transaction option) \<Rightarrow> string \<Rightarrow> LineageMapping list \<Rightarrow> go_error + int" where
  "released_amount byRef ref [] = Inr 0"
| "released_amount byRef ref (m # ms) =
     (case byRef (releaseReference ref (lm_Provider m)) of
       Inl e \<Rightarrow> Inl (errorf_w ''failed to check release idempotency'' e)
     | Inr None \<Rightarrow> released_amount byRef ref ms
     | Inr (Some prior) \<Rightarrow> (case tx_PreciseAmount prior of
           None \<Rightarrow> Inl (GoPanic ''nil pointer dereference'')
         | Some a \<Rightarrow> bindE (released_amount byRef ref ms) (\<lambda>r. Inr (a + r))))"

definition remainingDebitAmount ::
  "(string \<Rightarrow> go_error + Transaction option) \<Rightarrow> Transaction \<Rightarrow> LineageMapping list \<Rightarrow> go_error + int"
where
  "remainingDebitAmount byRef txn mappings =
     bindE (released_amount byRef (tx_Reference txn) mappings) (\<lambda>released.
       case tx_PreciseAmount txn of
         None \<Rightarrow> Inl (GoPanic ''nil pointer dereference'')
       | Some amount \<Rightarrow> Inr (amount - released))"

subsection \<open>Queries (core/lineage\_queries.go)\<close>

definition calculateProviderBreakdown ::
  "(string \<Rightarrow> go_error + Balance) \<Rightarrow> LineageMapping \<Rightarrow> go_error + ProviderBreakdown"
where
  "calculateProviderBreakdown GetBalanceByIDLite mapping =
     bindE (GetBalanceByIDLite (lm_ShadowBalanceID mapping)) (\<lambda>b.
       let debit = (case bal_DebitBalance b of None \<Rightarrow> 0 | Some d \<Rightarrow> d);
           credit = (case bal_CreditBalance b of None \<Rightarrow> 0 | Some c \<Rightarrow> c)
       in Inr \<lparr>pb_Provider = lm_Provider mapping, pb_Amount = debit, pb_Available = debit - credit,
               pb_Spent = credit, pb_BalanceID = lm_ShadowBalanceID mapping\<rparr>)"

fun populateLineageProviders ::
  "(string \<Rightarrow> go_error + Balance) \<Rightarrow> BalanceLineage \<Rightarrow> LineageMapping list \<Rightarrow> BalanceLineage"
where
  "populateLineageProviders get lineage [] = lineage"
| "populateLineageProviders get lineage (m # ms) =
     (case calculateProviderBreakdown get m of
       Inl e \<Rightarrow> populateLineageProviders get lineage ms
     | Inr b \<Rightarrow> populateLineageProviders get (lineage\<lparr>
           bl_Providers := bl_Providers lineage @ [b],
           bl_TotalWithLineage := bl_TotalWithLineage lineage + pb_Available b,
           bl_AggregateBalanceID := (if bl_AggregateBalanceID lineage = [] then lm_AggregateBalanceID m
                                     else bl_AggregateBalanceID lineage)\<rparr>) ms)"

definition GetBalanceLineage ::
  "(string \<Rightarrow> go_error + Balance) \<Rightarrow> (string \<Rightarrow> go_error + LineageMapping list) \<Rightarrow>
   (string \<Rightarrow> go_error + Balance) \<Rightarrow> string \<Rightarrow> go_error + BalanceLineage"
where
  "GetBalanceLineage GetBalanceByID GetLineageMappings GetBalanceByIDLite balanceID =
     (case GetBalanceByID balanceID of
       Inl e \<Rightarrow> Inl (errorf_w ''failed to get balance'' e)
     | Inr balance \<Rightarrow>
         if \<not> bal_TrackFundLineage balance
         then Inl (ErrorString (''balance '' @ balanceID @ '' does not have fund lineage tracking enabled''))
         else case GetLineageMappings balanceID of
             Inl e \<Rightarrow> Inl (errorf_w ''failed to get lineage mappings'' e)
           | Inr mappings \<Rightarrow> Inr (populateLineageProviders GetBalanceByIDLite
               \<lparr>bl_BalanceID = balanceID, bl_TotalWithLineage = 0, bl_AggregateBalanceID = [], bl_Providers = []\<rparr>
               mappings))"

definition extractFundAllocation :: "metadata option \<Rightarrow> metadata list option" where
  "extractFundAllocation m = (case meta_get m LineageFundAllocation of
       Some (JArr xs) \<Rightarrow> Some (concat (map (\<lambda>x. case x of JObj o' \<Rightarrow> [o'] | _ \<Rightarrow> []) xs))
     | _ \<Rightarrow> None)"

subsection \<open>Provider, outbox and shadow work (lineage\_processing.go, lineage\_outbox.go, lineage\_shadow.go)\<close>

definition getLineageProvider :: "Transaction \<Rightarrow> string" where
  "getLineageProvider txn = (case meta_get (ExecutionMetadata txn) LineageProviderKey of
       Some (JStr p) \<Rightarrow> p | _ \<Rightarrow> [])"

text \<open>\<open>byProvider\<close> is \<open>GetLineageMappingByProvider\<close>; a nil balance is \<^const>\<open>None\<close>.\<close>

definition validateLineageProvider ::
  "(string \<Rightarrow> string \<Rightarrow> go_error + LineageMapping option) \<Rightarrow> string \<Rightarrow> Balance option \<Rightarrow> go_error + string"
where
  "validateLineageProvider byProvider provider sourceBalance =
     (if provider = [] then Inr []
      else case sourceBalance of
        None \<Rightarrow> Inr provider
      | Some src \<Rightarrow>
          if \<not> bal_TrackFundLineage src then Inr provider
          else case byProvider (bal_BalanceID src) provider of
              Inl e \<Rightarrow> Inl (errorf_w ''failed to validate provider on source'' e)
            | Inr None \<Rightarrow> Inr []
            | Inr (Some m) \<Rightarrow> Inr provider)"

definition LineageTypeShadowCommit :: string where "LineageTypeShadowCommit = ''shadow_commit''"
definition LineageTypeShadowVoid :: string where "LineageTypeShadowVoid = ''shadow_void''"

record LineageOutbox =
  lo_ID :: int
  lo_TransactionID :: string
  lo_SourceBalanceID :: string
  lo_DestinationBalanceID :: string
  lo_Provider :: string
  lo_LineageType :: string
  lo_Payload :: string
  lo_Status :: string
  lo_Attempts :: int
  lo_MaxAttempts :: int
  lo_LastError :: string
  lo_CreatedAt :: time
  lo_ProcessedAt :: "time option"
  lo_LockedUntil :: "time option"
  lo_Inflight :: bool

text \<open>The marshalled payload; a number that is not finite has no JSON form. A nil \<open>*big.Int\<close> prints
  as \<open><nil>\<close>.\<close>

definition LineageOutboxPayload :: "Transaction \<Rightarrow> go_error + string" where
  "LineageOutboxPayload txn =
     bindE (json_float (tx_Amount txn)) (\<lambda>amount. bindE (json_float (tx_Precision txn)) (\<lambda>precision.
       Inr (json_object [(''amount'', amount), (''precise_amount'', json_string (case tx_PreciseAmount txn of None \<Rightarrow> ''<nil>'' | Some a \<Rightarrow> show_int a)),
         (''currency'', json_string (tx_Currency txn)), (''precision'', precision),
         (''reference'', json_string (tx_Reference txn)), (''skip_queue'', ''true''),
         (''inflight'', if tx_Inflight txn then ''true'' else ''false'')])))"

text \<open>The outbox entry, or \<^const>\<open>None\<close> for nil, which is also what a failed marshalling gives.\<close>

definition PrepareLineageOutbox :: "Transaction \<Rightarrow> Balance option \<Rightarrow> Balance option \<Rightarrow> LineageOutbox option" where
  "PrepareLineageOutbox txn sourceBalance destinationBalance =
     (let provider = getLineageProvider txn;
          needsCredit = (provider \<noteq> [] \<and> (case destinationBalance of None \<Rightarrow> False | Some b \<Rightarrow> bal_TrackFundLineage b));
          needsDebit = (case sourceBalance of None \<Rightarrow> False | Some b \<Rightarrow> bal_TrackFundLineage b)
      in if \<not> needsCredit \<and> \<not> needsDebit then None
         else case LineageOutboxPayload txn of
           Inl e \<Rightarrow> None
         | Inr payload \<Rightarrow> Some \<lparr>
             lo_ID = 0, lo_TransactionID = tx_TransactionID txn,
             lo_SourceBalanceID = (case sourceBalance of None \<Rightarrow> [] | Some b \<Rightarrow> bal_BalanceID b),
             lo_DestinationBalanceID = (case destinationBalance of None \<Rightarrow> [] | Some b \<Rightarrow> bal_BalanceID b),
             lo_Provider = provider,
             lo_LineageType = (if needsCredit \<and> \<not> needsDebit then ''credit''
                               else if needsDebit \<and> \<not> needsCredit then ''debit'' else ''both''),
             lo_Payload = payload, lo_Status = [], lo_Attempts = 0, lo_MaxAttempts = 5, lo_LastError = [],
             lo_CreatedAt = zero_time, lo_ProcessedAt = None, lo_LockedUntil = None,
             lo_Inflight = tx_Inflight txn\<rparr>)"

definition inflightTransactionNeedsShadowWork ::
  "(string \<Rightarrow> go_error + Balance) \<Rightarrow> Transaction option \<Rightarrow> bool"
where
  "inflightTransactionNeedsShadowWork GetBalanceByIDLite txnp = (case txnp of
       None \<Rightarrow> False
     | Some txn \<Rightarrow>
         let meta = ExecutionMetadata txn; provider = getLineageProvider txn
         in if meta \<noteq> None \<and> meta_get meta ''_lineage_type'' \<noteq> None then False
            else if meta \<noteq> None \<and> meta_get (tx_MetaData txn) LineageFundAllocation \<noteq> None then True
            else if provider \<noteq> []
            then (case GetBalanceByIDLite (tx_Destination txn) of Inl e \<Rightarrow> True | Inr dst \<Rightarrow> bal_TrackFundLineage dst)
            else if HasPrefix (tx_Source txn) ''@'' then False
            else (case GetBalanceByIDLite (tx_Source txn) of Inl e \<Rightarrow> True | Inr src \<Rightarrow> bal_TrackFundLineage src))"

subsection \<open>Lemmas: sequential allocation\<close>

abbreviation allocated :: "Allocation list \<Rightarrow> int" where
  "allocated as \<equiv> sum_list (map al_Amount as)"

abbreviation available :: "LineageSource list \<Rightarrow> int" where
  "available ss \<equiv> sum_list (map ls_Balance ss)"

definition positive_sources :: "LineageSource list \<Rightarrow> bool" where
  "positive_sources ss \<longleftrightarrow> (\<forall>s \<in> set ss. 0 < ls_Balance s)"

lemma positive_sources_simps [simp]:
  "positive_sources []"
  "positive_sources (s # ss) \<longleftrightarrow> 0 < ls_Balance s \<and> positive_sources ss"
  by (auto simp: positive_sources_def)

lemma available_nonneg: "positive_sources ss \<Longrightarrow> 0 \<le> available ss"
  by (induction ss) auto

lemma sequential_loop_total:
  "positive_sources ss \<Longrightarrow> 0 \<le> r \<Longrightarrow> allocated (sequential_loop ss r) = min r (available ss)"
proof (induction ss r rule: sequential_loop.induct)
  case (2 s ss r)
  have "0 \<le> available ss" using 2 available_nonneg by simp
  with 2 show ?case by (auto simp: Let_def)
qed simp

lemma sequential_loop_within:
  "a \<in> set (sequential_loop ss r) \<Longrightarrow>
   0 < al_Amount a \<and> (\<exists>s \<in> set ss. ls_BalanceID s = al_BalanceID a \<and> al_Amount a \<le> ls_Balance s)"
proof (induction ss r rule: sequential_loop.induct)
  case (2 s ss r)
  then show ?case by (auto simp: Let_def split: if_splits)
qed simp

text \<open>A source is reached only when every source before it is drained.\<close>

lemma sequential_loop_prefix:
  "positive_sources (xs @ ys) \<Longrightarrow> 0 \<le> r \<Longrightarrow>
   sequential_loop (xs @ ys) r =
     (if r \<le> available xs then sequential_loop xs r
      else map (\<lambda>s. \<lparr>al_BalanceID = ls_BalanceID s, al_Amount = ls_Balance s\<rparr>) xs
             @ sequential_loop ys (r - available xs))"
proof (induction xs arbitrary: r)
  case Nil
  then show ?case by (cases ys) auto
next
  case (Cons s xs)
  have "0 \<le> available xs" using Cons.prems by (intro available_nonneg) (simp add: positive_sources_def)
  moreover have "sequential_loop (xs @ ys) (r - ls_Balance s) =
     (if r - ls_Balance s \<le> available xs then sequential_loop xs (r - ls_Balance s)
      else map (\<lambda>s. \<lparr>al_BalanceID = ls_BalanceID s, al_Amount = ls_Balance s\<rparr>) xs
             @ sequential_loop ys (r - ls_Balance s - available xs))" if "ls_Balance s \<le> r"
    using Cons that by simp
  moreover have "sequential_loop zs 0 = []" for zs by (cases zs) auto
  ultimately show ?case using Cons.prems by (auto simp: Let_def algebra_simps)
qed

lemma sequential_loop_drained:
  assumes pos: "positive_sources ss" and r: "0 \<le> r" and dist: "distinct (map ls_BalanceID ss)"
    and ss: "ss = xs @ s # ys" and reached: "ls_BalanceID s \<in> al_BalanceID ` set (sequential_loop ss r)"
    and t: "t \<in> set xs"
  shows "\<lparr>al_BalanceID = ls_BalanceID t, al_Amount = ls_Balance t\<rparr> \<in> set (sequential_loop ss r)"
proof -
  have "ls_BalanceID s \<notin> al_BalanceID ` set (sequential_loop xs r)"
  proof
    assume "ls_BalanceID s \<in> al_BalanceID ` set (sequential_loop xs r)"
    then obtain a where "a \<in> set (sequential_loop xs r)" "al_BalanceID a = ls_BalanceID s" by auto
    with sequential_loop_within [OF this(1)] have "ls_BalanceID s \<in> ls_BalanceID ` set xs"
      by (metis imageI)
    with dist ss show False by simp
  qed
  with reached have "\<not> r \<le> available xs"
    using sequential_loop_prefix [of xs "s # ys" r] pos r ss by auto
  then show ?thesis
    using sequential_loop_prefix [of xs "s # ys" r] pos r ss t by auto
qed

lemma positive_sources_perm: "mset xs = mset ys \<Longrightarrow> positive_sources xs = positive_sources ys"
  unfolding positive_sources_def by (metis mset_eq_setD)

subsection \<open>Lemmas: proportional allocation\<close>

lemma proportional_loop_within:
  "a \<in> set (proportional_loop e t ss r) \<Longrightarrow>
   0 < al_Amount a \<and> (\<exists>s \<in> set ss. ls_BalanceID s = al_BalanceID a \<and> al_Amount a \<le> ls_Balance s)"
  by (induction e t ss r rule: proportional_loop.induct) (auto simp: Let_def split: if_splits)

text \<open>
  What the loop hands out from the sources \<open>ss\<close> when \<open>r\<close> remains: at most \<open>r\<close>, and at least
  the exact share \<open>e * available ss / t\<close> less one unit for each source, as long as \<open>r\<close> is at
  least that share.
\<close>

lemma proportional_share_le:
  assumes "0 < (t::int)" "0 \<le> e" "e \<le> t" "0 < b"
  shows "(e * b) div t \<le> b" "0 \<le> (e * b) div t"
proof -
  have "e * b \<le> t * b" using assms by (intro mult_right_mono) auto
  then have "(e * b) div t \<le> (t * b) div t" using assms(1) by (rule zdiv_mono1)
  then show "(e * b) div t \<le> b" using assms(1) by simp
  show "0 \<le> (e * b) div t" using assms by (intro pos_imp_zdiv_nonneg_iff [THEN iffD2]) auto
qed

lemma proportional_loop_bounds:
  assumes "0 < t" "0 \<le> e" "e \<le> t"
  shows "positive_sources ss \<Longrightarrow> e * available ss \<le> t * r \<Longrightarrow>
    allocated (proportional_loop e t ss r) \<le> r \<and>
    e * available ss \<le> t * (allocated (proportional_loop e t ss r) + int (length ss))"
proof (induction ss arbitrary: r)
  case Nil
  then show ?case using assms by (simp add: zero_le_mult_iff)
next
  case (Cons s ss)
  let ?b = "ls_Balance s"
  let ?q = "(e * ?b) div t"
  have b: "0 < ?b" and pos: "positive_sources ss" using Cons.prems by auto
  note q = proportional_share_le [OF assms b]
  have qlo: "t * ?q \<le> e * ?b" and qhi: "e * ?b < t * ?q + t"
    using assms(1) by (simp_all add: mult.commute minus_mod_eq_mult_div [symmetric] pos_mod_bound)
  show ?case
  proof (cases "ss = []")
    case True
    have "0 \<le> e * ?b" using assms b by simp
    with Cons.prems True have "0 \<le> t * r" by simp
    with assms(1) have r: "0 \<le> r" by (simp add: zero_le_mult_iff)
    have "e * ?b \<le> t * ?b" using assms b by (intro mult_right_mono) auto
    with assms(1) have eb: "e * ?b \<le> t + t * ?b" by linarith
    have tr: "e * ?b \<le> t * r" using Cons.prems True by simp
    with assms(1) have er: "e * ?b \<le> t + t * r" by linarith
    have "allocated (proportional_loop e t (s # ss) r) = min r ?b"
      using True r b by (auto simp: Let_def)
    with True eb er show ?thesis by (auto simp: min_def distrib_left add.commute)
  next
    case False
    have rest: "e * available ss \<le> t * (r - ?q)"
      using Cons.prems qlo by (simp add: algebra_simps)
    note IH = Cons.IH [OF pos rest]
    have alloc: "allocated (proportional_loop e t (s # ss) r) = ?q + allocated (proportional_loop e t ss (r - ?q))"
    proof (cases "?q \<le> 0")
      case True
      with q(2) have "?q = 0" by simp
      with False b show ?thesis by (simp add: Let_def)
    next
      case False
      with \<open>ss \<noteq> []\<close> q(1) show ?thesis by (auto simp: Let_def)
    qed
    have "e * available (s # ss) \<le> t * (allocated (proportional_loop e t (s # ss) r) + int (length (s # ss)))"
      using IH qhi unfolding alloc by (simp add: algebra_simps)
    moreover have "allocated (proportional_loop e t (s # ss) r) \<le> r"
      using IH unfolding alloc by simp
    ultimately show ?thesis by blast
  qed
qed

lemma lineage_source_positive: "s \<in> set (lineage_source balances m) \<Longrightarrow> 0 < ls_Balance s"
  by (auto simp: lineage_source_def split: option.splits if_splits)

lemma getLineageSources_positive:
  "getLineageSources look mappings = Inr sources \<Longrightarrow> positive_sources sources"
  by (auto simp: getLineageSources_def positive_sources_def split: if_splits sum.splits
      dest: lineage_source_positive)

lemma lineage_source_id: "s \<in> set (lineage_source balances m) \<Longrightarrow> ls_BalanceID s = lm_ShadowBalanceID m"
  by (auto simp: lineage_source_def split: option.splits if_splits)

lemma lineage_source_single: "distinct (map ls_BalanceID (lineage_source balances m))"
  by (auto simp: lineage_source_def split: option.splits)

lemma map_id_concat_source:
  "distinct (map lm_ShadowBalanceID mappings) \<Longrightarrow>
   distinct (map ls_BalanceID (concat (map (lineage_source balances) mappings)))"
proof (induction mappings)
  case (Cons m ms)
  have disj: "ls_BalanceID x \<noteq> ls_BalanceID y"
    if x: "x \<in> set (lineage_source balances m)" and y: "y \<in> set (concat (map (lineage_source balances) ms))" for x y
  proof -
    from y obtain n where n: "n \<in> set ms" "y \<in> set (lineage_source balances n)" by auto
    have "lm_ShadowBalanceID m \<noteq> lm_ShadowBalanceID n" using Cons.prems n(1) by auto
    then show ?thesis using lineage_source_id [OF x] lineage_source_id [OF n(2)] by simp
  qed
  have "ls_BalanceID ` set (lineage_source balances m) \<inter>
      ls_BalanceID ` set (concat (map (lineage_source balances) ms)) = {}"
    using disj by blast
  with Cons lineage_source_single [of balances m] show ?case by simp
qed simp

lemma getLineageSources_distinct:
  "getLineageSources look mappings = Inr sources \<Longrightarrow> distinct (map lm_ShadowBalanceID mappings) \<Longrightarrow>
   distinct (map ls_BalanceID sources)"
  by (auto simp: getLineageSources_def split: if_splits sum.splits intro: map_id_concat_source)

text \<open>What the allocator gets from the contract of the sort, on the order the strategy names.\<close>

locale source_sort = slice_sort sort_Slice
  for sort_Slice :: "(LineageSource \<Rightarrow> LineageSource \<Rightarrow> bool) \<Rightarrow> LineageSource list \<Rightarrow> LineageSource list"
begin

lemma sequential_sorted_total:
  assumes "positive_sources ss" "0 \<le> amount"
  shows "allocated (sequentialAllocation (sort_Slice lt ss) amount) = min amount (available ss)"
proof -
  have "positive_sources (sort_Slice lt ss)" using positive_sources_perm [OF sort_Slice_perm] assms(1) by simp
  then show ?thesis
    using assms available_nonneg [of ss] sequential_loop_total [of "sort_Slice lt ss" amount]
    by (auto simp: sequentialAllocation_def sort_Slice_sum)
qed

lemma sequential_sorted_within:
  "a \<in> set (sequentialAllocation (sort_Slice lt ss) amount) \<Longrightarrow>
   0 < al_Amount a \<and> (\<exists>s \<in> set ss. ls_BalanceID s = al_BalanceID a \<and> al_Amount a \<le> ls_Balance s)"
  using sequential_loop_within [of a "sort_Slice lt ss" amount]
  by (auto simp: sequentialAllocation_def sort_Slice_set split: if_splits)

lemma sequential_sorted_order:
  assumes "positive_sources ss" "distinct (map ls_BalanceID ss)"
    and order: "asymp lt" "transp (\<lambda>x y. \<not> lt y x)" "lt t s"
    and mem: "s \<in> set ss" "t \<in> set ss"
    and reached: "ls_BalanceID s \<in> al_BalanceID ` set (sequentialAllocation (sort_Slice lt ss) amount)"
  shows "\<lparr>al_BalanceID = ls_BalanceID t, al_Amount = ls_Balance t\<rparr>
    \<in> set (sequentialAllocation (sort_Slice lt ss) amount)"
proof -
  let ?zs = "sort_Slice lt ss"
  have amount: "0 < amount" using reached by (auto simp: sequentialAllocation_def split: if_splits)
  have pos: "positive_sources ?zs" using positive_sources_perm [OF sort_Slice_perm] assms(1) by simp
  have dist: "distinct (map ls_BalanceID ?zs)" using assms(2) sort_Slice_distinct by blast
  from mem(1) obtain xs ys where zs: "?zs = xs @ s # ys" by (metis sort_Slice_set split_list)
  have "sorted_wrt (\<lambda>x y. \<not> lt y x) ?zs" using order(1,2) by (rule sort_Slice_sorted)
  with zs order have "t \<notin> set ys" by (auto simp: sorted_wrt_append)
  moreover have "t \<noteq> s" using order(1,3) by (auto dest: asympD)
  ultimately have "t \<in> set xs" using mem(2) zs sort_Slice_set [of lt ss] by auto
  from sequential_loop_drained [OF pos _ dist zs _ this, of amount] amount reached
  show ?thesis by (simp add: sequentialAllocation_def)
qed

end

interpretation allocator: source_sort insertionSort
  by unfold_locales

lemma created_order:
  "asymp (\<lambda>a b. ls_CreatedAt a < ls_CreatedAt b)" "transp (\<lambda>x y. \<not> ls_CreatedAt y < ls_CreatedAt x)"
  "asymp (\<lambda>a b. ls_CreatedAt b < ls_CreatedAt a)" "transp (\<lambda>x y. \<not> ls_CreatedAt x < ls_CreatedAt y)"
  by (auto intro!: asympI transpI)

subsection \<open>Properties\<close>

text \<open>
  C26: FIFO and LIFO allocation is exact. Whatever order \<open>sort.Slice\<close> gives to sources of one
  creation time, the allocations of a debit over the sources read from the shadow balances sum
  to the amount, or to all that is available when that is less, and each is positive and within
  the balance of a source.
\<close>

theorem sequential_allocation_exact:
  assumes "source_sort sort_Slice" "getLineageSources look mappings = Inr sources" "0 \<le> amount"
    and "strategy \<noteq> AllocationProp"
  shows "allocated (calculateAllocation sort_Slice sources amount strategy) = min amount (available sources)
    \<and> (\<forall>a \<in> set (calculateAllocation sort_Slice sources amount strategy).
         0 < al_Amount a \<and> (\<exists>s \<in> set sources. ls_BalanceID s = al_BalanceID a \<and> al_Amount a \<le> ls_Balance s))"
proof -
  note laws = source_sort.sequential_sorted_total [OF assms(1) getLineageSources_positive [OF assms(2)] assms(3)]
    source_sort.sequential_sorted_within [OF assms(1)]
  show ?thesis using assms(3,4) laws by (auto simp: calculateAllocation_def)
qed

definition ex_mappings :: "LineageMapping list" where
  "ex_mappings = map (\<lambda>(p, t). \<lparr>lm_ID = 0, lm_BalanceID = ''main'', lm_Provider = p, lm_ShadowBalanceID = p,
     lm_AggregateBalanceID = ''agg'', lm_IdentityID = ''id'', lm_CreatedAt = t\<rparr>) [(''a'', 2), (''b'', 1), (''c'', 3)]"

definition ex_shadow :: "string \<Rightarrow> Balance option" where
  "ex_shadow k = map_of [(''a'', zero_Balance\<lparr>bal_DebitBalance := Some 5, bal_CreditBalance := Some 2\<rparr>),
     (''b'', zero_Balance\<lparr>bal_DebitBalance := Some 3, bal_CreditBalance := Some 0\<rparr>),
     (''c'', zero_Balance\<lparr>bal_DebitBalance := Some 2, bal_CreditBalance := Some 1\<rparr>)] k"

definition ex_sources :: "LineageSource list" where
  "ex_sources = map (\<lambda>(p, b, t). \<lparr>ls_BalanceID = p, ls_Balance = b, ls_CreatedAt = t\<rparr>)
     [(''a'', 3, 2), (''b'', 3, 1), (''c'', 1, 3)]"

lemma ex_sources_read: "getLineageSources (\<lambda>ids. Inr ex_shadow) ex_mappings = Inr ex_sources"
  by (simp add: getLineageSources_def ex_mappings_def lineage_source_def ex_shadow_def ex_sources_def zero_Balance_def)

theorem sequential_allocation_exact_witness:
  "allocated (calculateAllocation insertionSort ex_sources 4 AllocationFIFO) = min 4 (available ex_sources)
    \<and> list_all (\<lambda>a. 0 < al_Amount a \<and> (\<exists>s \<in> set ex_sources. ls_BalanceID s = al_BalanceID a \<and> al_Amount a \<le> ls_Balance s))
        (calculateAllocation insertionSort ex_sources 4 AllocationFIFO)"
  unfolding list_all_iff
  by (rule sequential_allocation_exact [OF allocator.source_sort_axioms ex_sources_read]) (simp_all add: strategy_defs)

text \<open>
  C27: FIFO spends the oldest funds first and LIFO the newest: when a source receives an
  allocation, every source created strictly before it (strictly after it for LIFO) is allocated
  its whole balance.
\<close>

theorem allocation_order:
  assumes "source_sort sort_Slice" "getLineageSources look mappings = Inr sources"
    and "distinct (map lm_ShadowBalanceID mappings)"
    and "s \<in> set sources" "t \<in> set sources"
    and "(strategy = AllocationFIFO \<and> ls_CreatedAt t < ls_CreatedAt s)
      \<or> (strategy = AllocationLIFO \<and> ls_CreatedAt s < ls_CreatedAt t)"
    and "ls_BalanceID s \<in> al_BalanceID ` set (calculateAllocation sort_Slice sources amount strategy)"
  shows "\<lparr>al_BalanceID = ls_BalanceID t, al_Amount = ls_Balance t\<rparr>
    \<in> set (calculateAllocation sort_Slice sources amount strategy)"
proof -
  note order = source_sort.sequential_sorted_order [OF assms(1) getLineageSources_positive [OF assms(2)]
      getLineageSources_distinct [OF assms(2,3)], OF _ _ _ assms(4,5)]
  have names: "AllocationFIFO \<noteq> AllocationLIFO" "AllocationFIFO \<noteq> AllocationProp" by (simp_all add: strategy_defs)
  have "sources \<noteq> []" using assms(4) by auto
  from assms(6) show ?thesis
  proof
    assume fifo: "strategy = AllocationFIFO \<and> ls_CreatedAt t < ls_CreatedAt s"
    show ?thesis
      using order [OF created_order(1,2), of amount] fifo assms(7) \<open>sources \<noteq> []\<close> names
      by (simp add: calculateAllocation_def)
  next
    assume lifo: "strategy = AllocationLIFO \<and> ls_CreatedAt s < ls_CreatedAt t"
    show ?thesis
      using order [OF created_order(3,4), of amount] lifo assms(7) \<open>sources \<noteq> []\<close>
      by (simp add: calculateAllocation_def)
  qed
qed

theorem allocation_order_witness:
  "\<lparr>al_BalanceID = ls_BalanceID (ex_sources ! 1), al_Amount = ls_Balance (ex_sources ! 1)\<rparr>
    \<in> set (calculateAllocation insertionSort ex_sources 4 AllocationFIFO)"
proof (rule allocation_order [OF allocator.source_sort_axioms ex_sources_read])
  show "ls_BalanceID (ex_sources ! 0) \<in> al_BalanceID ` set (calculateAllocation insertionSort ex_sources 4 AllocationFIFO)"
    by code_simp
  show "(AllocationFIFO = AllocationFIFO \<and> ls_CreatedAt (ex_sources ! 1) < ls_CreatedAt (ex_sources ! 0))
      \<or> (AllocationFIFO = AllocationLIFO \<and> ls_CreatedAt (ex_sources ! 0) < ls_CreatedAt (ex_sources ! 1))"
    by (simp add: ex_sources_def)
qed (simp_all add: ex_mappings_def ex_sources_def)



text \<open>
  The shortfall is real: of an amount of 6 over sources of 3, 3 and 1 only 5 is allocated. The
  last source is given the remainder of the rounding and cannot hold it.
\<close>

lemma proportional_shortfall:
  "allocated (calculateAllocation insertionSort ex_sources 6 AllocationProp) = 5" "available ex_sources = 7"
  by code_simp+

text \<open>
  A commit does not always reach the shadows the outbox made: with a provider on the
  transaction, a source that tracks lineage and a destination that does not, the outbox asks
  for debit processing while the commit sees no shadow work.
\<close>

definition ex_gap_txn :: Transaction where
  "ex_gap_txn = zero_Transaction\<lparr>tx_Source := ''src'', tx_Destination := ''dst'', tx_PreciseAmount := Some 1,
     tx_Amount := Fin 1, tx_Precision := Fin 1, tx_MetaData := Some [(''LEDGERFORGE_LINEAGE_PROVIDER'', JStr ''p'')]\<rparr>"

lemma shadow_work_gap:
  "map_option lo_LineageType
     (PrepareLineageOutbox ex_gap_txn (Some (zero_Balance\<lparr>bal_TrackFundLineage := True\<rparr>)) (Some zero_Balance)) = Some ''debit''"
  "\<not> inflightTransactionNeedsShadowWork
     (\<lambda>k. Inr (if k = ''src'' then zero_Balance\<lparr>bal_TrackFundLineage := True\<rparr> else zero_Balance)) (Some ex_gap_txn)"
  by (simp_all add: PrepareLineageOutbox_def inflightTransactionNeedsShadowWork_def ex_gap_txn_def zero_Balance_def
      zero_Transaction_def getLineageProvider_def ExecutionMetadata_def meta_get_def LineageProviderKey_def
      LineageFundAllocation_def LineageOutboxPayload_def Let_def)

end
