(* ===== verification/Redlock.thy ===== *)
theory Redlock
  imports Go_Lang
begin

section \<open>Distributed locks (internal/lock/lock.go)\<close>

text \<open>
  The Redis keys the locks use, the single-key \<open>Locker\<close> (acquire, release, extend, wait with
  jittered backoff) and the \<open>MultiLocker\<close> that takes several keys in lexicographic order and
  rolls back on a failure. Redis is a map from keys to a value and an expiry; \<open>SETNX\<close> and the two
  Lua scripts run atomically on it. Each call takes the clock reading and, where a command can
  fail on the way to the server, the client's error for it, in which case the command has no
  effect. The theory shows mutual exclusion over all interleavings of clients, that a
  \<open>MultiLocker\<close> acquires all its keys or leaves every other lock as it was, and that waiting ends
  within its time.
\<close>

type_synonym redis = "string \<rightharpoonup> string \<times> time option"

text \<open>The value of a key that has not expired; an expiry of \<^const>\<open>None\<close> is a key without one.\<close>

definition live :: "time \<Rightarrow> redis \<Rightarrow> string \<Rightarrow> string option" where
  "live now r k = (case r k of
       None \<Rightarrow> None
     | Some (v, None) \<Rightarrow> Some v
     | Some (v, Some e) \<Rightarrow> if now < e then Some v else None)"

definition SetNX :: "time \<Rightarrow> string \<Rightarrow> string \<Rightarrow> int \<Rightarrow> redis \<Rightarrow> redis \<times> bool" where
  "SetNX now k v ttl r =
     (case live now r k of
       None \<Rightarrow> (r(k \<mapsto> (v, if ttl = 0 then None else Some (now + ttl))), True)
     | Some w \<Rightarrow> (r, False))"

definition ErrLockHeld :: go_error where "ErrLockHeld = ErrorString ''lock already held''"
definition ErrLockWaitTimeout :: go_error where "ErrLockWaitTimeout = ErrorString ''lock wait timeout''"

text \<open>\<open>lockError\<close> has its own text and unwraps to its cause.\<close>

definition lockError :: "go_error \<Rightarrow> string \<Rightarrow> go_error" where
  "lockError e msg = WrapError msg e"

subsection \<open>Locker\<close>

record Locker =
  lk_key :: string
  lk_value :: string

definition NewLocker :: "string \<Rightarrow> string \<Rightarrow> Locker" where
  "NewLocker key v = \<lparr>lk_key = key, lk_value = v\<rparr>"

definition Lock :: "go_error option \<Rightarrow> time \<Rightarrow> int \<Rightarrow> Locker \<Rightarrow> redis \<Rightarrow> redis \<times> go_error option" where
  "Lock net now timeout l r = (case net of
       Some e \<Rightarrow> (r, Some e)
     | None \<Rightarrow> (case SetNX now (lk_key l) (lk_value l) timeout r of
           (r', True) \<Rightarrow> (r', None)
         | (r', False) \<Rightarrow> (r', Some (lockError ErrLockHeld (''lock for key '' @ lk_key l @ '' is already held'')))))"

definition Unlock :: "go_error option \<Rightarrow> time \<Rightarrow> Locker \<Rightarrow> redis \<Rightarrow> redis \<times> go_error option" where
  "Unlock net now l r = (case net of
       Some e \<Rightarrow> (r, Some e)
     | None \<Rightarrow>
         if live now r (lk_key l) = Some (lk_value l) then (r(lk_key l := None), None)
         else (r, Some (ErrorString (''unlock failed, either lock expired or you're not the lock holder for key '' @ lk_key l))))"

text \<open>\<open>PEXPIRE\<close> with a duration that is not positive deletes the key; it counts in milliseconds.\<close>

definition Milliseconds :: "int \<Rightarrow> int" where
  "Milliseconds d = (if 0 \<le> d then d div 1000000 else - ((- d) div 1000000))"

definition ExtendLock :: "go_error option \<Rightarrow> time \<Rightarrow> int \<Rightarrow> Locker \<Rightarrow> redis \<Rightarrow> redis \<times> go_error option" where
  "ExtendLock net now extension l r = (case net of
       Some e \<Rightarrow> (r, Some e)
     | None \<Rightarrow>
         if live now r (lk_key l) = Some (lk_value l)
         then (if 0 < Milliseconds extension
               then (r(lk_key l \<mapsto> (lk_value l, Some (now + Milliseconds extension * 1000000))), None)
               else (r(lk_key l := None), None))
         else (r, Some (ErrorString (''lock extension failed for key '' @ lk_key l
                                      @ '', either lock expired or you're not the holder''))))"

subsection \<open>Backoff and waiting\<close>

definition lockBackoffBase :: int where "lockBackoffBase = 5 * 1000000"
definition lockBackoffMax :: int where "lockBackoffMax = 100 * 1000000"

fun backoff_loop :: "nat \<Rightarrow> int \<Rightarrow> int" where
  "backoff_loop 0 b = b"
| "backoff_loop (Suc n) b = (if b < lockBackoffMax then backoff_loop n (b * 2) else b)"

definition backoff :: "nat \<Rightarrow> int" where
  "backoff attempt = (let b = backoff_loop attempt lockBackoffBase in if lockBackoffMax < b then lockBackoffMax else b)"

text \<open>
  The delay \<open>sleepWithJitter\<close> sleeps for: \<open>draw\<close> is the random number behind \<open>rand.Int63n\<close>, which
  is reduced to the range of the backoff.
\<close>

definition jitter_delay :: "int \<Rightarrow> int \<Rightarrow> nat \<Rightarrow> int" where
  "jitter_delay remaining draw attempt =
     (if remaining \<le> 0 then 0
      else let d = draw mod backoff attempt; d' = (if d \<le> 0 then 1000000 else d)
        in if remaining < d' then remaining else d')"

text \<open>
  What surrounds a wait: for each attempt the client error of its command, the random draw, what
  the other clients do to Redis while it sleeps, the time that passes on top of the sleep, and
  the error of the context, if it is done.
\<close>

record wait_env =
  we_net :: "nat \<Rightarrow> go_error option"
  we_draw :: "nat \<Rightarrow> int"
  we_others :: "nat \<Rightarrow> redis \<Rightarrow> redis"
  we_slack :: "nat \<Rightarrow> nat"
  we_ctx :: "nat \<Rightarrow> go_error option"

lemma backoff_loop_pos: "0 < b \<Longrightarrow> 0 < backoff_loop n b"
  by (induction n b rule: backoff_loop.induct) auto

lemma backoff_pos [simp]: "0 < backoff n"
  using backoff_loop_pos [of lockBackoffBase n]
  by (simp add: backoff_def Let_def lockBackoffBase_def lockBackoffMax_def)

lemma jitter_delay_pos: "0 < remaining \<Longrightarrow> 0 < jitter_delay remaining draw n"
  by (simp add: jitter_delay_def Let_def)

text \<open>
  The loop of \<open>Locker.WaitLock\<close> and \<open>MultiLocker.WaitLock\<close>, which differ in what they acquire
  and in the text of their errors. \<open>acquire\<close> is one attempt; the result carries the clock.
\<close>

function wait_loop ::
  "(go_error option \<Rightarrow> time \<Rightarrow> redis \<Rightarrow> redis \<times> go_error option) \<Rightarrow> string \<Rightarrow> string \<Rightarrow> wait_env \<Rightarrow>
   time \<Rightarrow> nat \<Rightarrow> time \<Rightarrow> redis \<Rightarrow> redis \<times> go_error option \<times> time"
where
  "wait_loop acquire cancelled expired env deadline attempt now r =
     (if now < deadline
      then case acquire (we_net env attempt) now r of
          (r', None) \<Rightarrow> (r', None, now)
        | (r', Some e) \<Rightarrow>
            if \<not> errors_Is e ErrLockHeld
            then (case we_ctx env attempt of
                Some c \<Rightarrow> (r', Some (errorf_w cancelled c), now)
              | None \<Rightarrow> (r', Some e, now))
            else (case we_ctx env attempt of
                Some c \<Rightarrow> (r', Some (errorf_w cancelled c), now)
              | None \<Rightarrow> wait_loop acquire cancelled expired env deadline (Suc attempt)
                  (now + jitter_delay (deadline - now) (we_draw env attempt) attempt + int (we_slack env attempt))
                  (we_others env attempt r'))
      else (r, Some (lockError ErrLockWaitTimeout expired), now))"
  by pat_completeness auto

termination
proof (relation "measure (\<lambda>(acquire, c, x, env, deadline, attempt, now, r). nat (deadline - now))", goal_cases)
  case (2 acquire c x env deadline attempt now)
  then show ?case using jitter_delay_pos [of "deadline - now" "we_draw env attempt" attempt] by simp
qed simp

declare wait_loop.simps [simp del]

definition WaitLock :: "wait_env \<Rightarrow> go_error option \<Rightarrow> time \<Rightarrow> int \<Rightarrow> int \<Rightarrow> Locker \<Rightarrow> redis \<Rightarrow> redis \<times> go_error option \<times> time" where
  "WaitLock env ctxErr now lockTimeout waitTimeout l r =
     (let cancelled = ''lock wait cancelled for key '' @ lk_key l in
      case ctxErr of
        Some e \<Rightarrow> (r, Some (errorf_w cancelled e), now)
      | None \<Rightarrow> wait_loop (\<lambda>net t. Lock net t lockTimeout l) cancelled
          (''failed to acquire lock for key '' @ lk_key l @ '' within the wait timeout'')
          env (now + waitTimeout) 0 now r)"

subsection \<open>MultiLocker\<close>

record MultiLocker =
  ml_lockers :: "Locker list"
  ml_keys :: "string list"
  ml_value :: string

text \<open>The loop that drops empty and repeated keys.\<close>

definition unique_keys :: "string list \<Rightarrow> string list" where
  "unique_keys keys = fold (\<lambda>k acc. if k \<noteq> [] \<and> k \<notin> set acc then acc @ [k] else acc) keys []"

definition NewMultiLocker :: "string list \<Rightarrow> string \<Rightarrow> MultiLocker" where
  "NewMultiLocker keys v =
     (let uniqueKeys = sort (unique_keys keys)
      in \<lparr>ml_lockers = map (\<lambda>k. NewLocker k v) uniqueKeys, ml_keys = uniqueKeys, ml_value = v\<rparr>)"

text \<open>\<open>rollback\<close> releases the acquired lockers in reverse order and ignores the errors.\<close>

definition rollback :: "(string \<Rightarrow> go_error option) \<Rightarrow> time \<Rightarrow> Locker list \<Rightarrow> redis \<Rightarrow> redis" where
  "rollback unet now acquired r = foldl (\<lambda>r l. fst (Unlock (unet (lk_key l)) now l r)) r (rev acquired)"

fun multi_lock_loop ::
  "(string \<Rightarrow> go_error option) \<Rightarrow> (string \<Rightarrow> go_error option) \<Rightarrow> time \<Rightarrow> int \<Rightarrow> Locker list \<Rightarrow> Locker list \<Rightarrow>
   redis \<Rightarrow> redis \<times> go_error option"
where
  "multi_lock_loop net unet now timeout acquired [] r = (r, None)"
| "multi_lock_loop net unet now timeout acquired (l # ls) r =
     (case Lock (net (lk_key l)) now timeout l r of
       (r', Some e) \<Rightarrow> (rollback unet now acquired r',
                        Some (errorf_w (''failed to acquire lock for key '' @ lk_key l) e))
     | (r', None) \<Rightarrow> multi_lock_loop net unet now timeout (acquired @ [l]) ls r')"

definition MultiLock ::
  "(string \<Rightarrow> go_error option) \<Rightarrow> (string \<Rightarrow> go_error option) \<Rightarrow> time \<Rightarrow> int \<Rightarrow> MultiLocker \<Rightarrow> redis \<Rightarrow> redis \<times> go_error option"
where
  "MultiLock net unet now timeout m r = multi_lock_loop net unet now timeout [] (ml_lockers m) r"

definition MultiWaitLock ::
  "(string \<Rightarrow> go_error option) \<Rightarrow> wait_env \<Rightarrow> go_error option \<Rightarrow> time \<Rightarrow> int \<Rightarrow> int \<Rightarrow> MultiLocker \<Rightarrow> redis \<Rightarrow>
   redis \<times> go_error option \<times> time"
where
  "MultiWaitLock unet env ctxErr now lockTimeout waitTimeout m r =
     (case ctxErr of
        Some e \<Rightarrow> (r, Some (errorf_w ''lock wait cancelled'' e), now)
      | None \<Rightarrow> wait_loop (\<lambda>net t. MultiLock (\<lambda>k. net) unet t lockTimeout m) ''lock wait cancelled''
          ''failed to acquire all locks within the wait timeout'' env (now + waitTimeout) 0 now r)"

text \<open>\<open>Unlock\<close> releases in reverse order and returns the last error it met.\<close>

definition MultiUnlock :: "(string \<Rightarrow> go_error option) \<Rightarrow> time \<Rightarrow> MultiLocker \<Rightarrow> redis \<Rightarrow> redis \<times> go_error option" where
  "MultiUnlock unet now m r =
     foldl (\<lambda>(r, lastErr) l. case Unlock (unet (lk_key l)) now l r of
         (r', None) \<Rightarrow> (r', lastErr)
       | (r', Some e) \<Rightarrow> (r', Some e)) (r, None) (rev (ml_lockers m))"

subsection \<open>Lemmas: one lock\<close>

lemma live_upd [simp]:
  "live now (r(k := None)) j = (if j = k then None else live now r j)"
  "live now (r(k \<mapsto> (v, None))) j = (if j = k then Some v else live now r j)"
  "live now (r(k \<mapsto> (v, Some e))) j = (if j = k then (if now < e then Some v else None) else live now r j)"
  by (simp_all add: live_def)

lemma Lock_result:
  "Lock net now ttl l r = (r', e) \<Longrightarrow> (e \<noteq> None \<and> r' = r) \<or>
     (e = None \<and> net = None \<and> live now r (lk_key l) = None \<and>
      r' = r(lk_key l \<mapsto> (lk_value l, if ttl = 0 then None else Some (now + ttl))))"
  by (auto simp: Lock_def SetNX_def split: option.splits)

lemma Lock_cases:
  assumes "Lock net now ttl l r = (r', e)"
  obtains (held) "e \<noteq> None" "r' = r"
    | (acquired) "e = None" "net = None" "live now r (lk_key l) = None"
        "r' = r(lk_key l \<mapsto> (lk_value l, if ttl = 0 then None else Some (now + ttl)))"
  using Lock_result [OF assms] by (elim disjE conjE) (erule (1) that | erule (3) that)+

lemma Unlock_result:
  "Unlock net now l r = (r', e) \<Longrightarrow> (e \<noteq> None \<and> r' = r) \<or>
     (e = None \<and> live now r (lk_key l) = Some (lk_value l) \<and> r' = r(lk_key l := None))"
  by (auto simp: Unlock_def split: option.splits if_splits)

lemma Unlock_cases:
  assumes "Unlock net now l r = (r', e)"
  obtains (kept) "e \<noteq> None" "r' = r"
    | (released) "e = None" "live now r (lk_key l) = Some (lk_value l)" "r' = r(lk_key l := None)"
  using Unlock_result [OF assms] by (elim disjE conjE) (erule (1) that | erule (2) that)+

lemma Lock_free: "Lock None now ttl l r = (r', e) \<Longrightarrow> e = None \<longleftrightarrow> live now r (lk_key l) = None"
  by (auto simp: Lock_def SetNX_def split: option.splits)

lemma Lock_held_error: "Lock None now ttl l r = (r', Some e) \<Longrightarrow> errors_Is e ErrLockHeld"
  by (auto simp: Lock_def SetNX_def lockError_def split: option.splits)

subsection \<open>Clients over one Redis: mutual exclusion\<close>

text \<open>
  The state of a run: the clock, Redis, and what the clients hold by their own account, as a key,
  the holder's value and the time until which the lock was granted. A client that releases a lock
  gives it up whatever Redis answers.
\<close>

record lock_state =
  st_now :: time
  st_redis :: redis
  st_held :: "(string \<times> string \<times> time) set"

inductive lock_step :: "lock_state \<Rightarrow> lock_state \<Rightarrow> bool" where
  tick: "st_now s \<le> t \<Longrightarrow> lock_step s (s\<lparr>st_now := t\<rparr>)"
| acquire: "Lock net (st_now s) ttl l (st_redis s) = (r, e) \<Longrightarrow> 0 < ttl \<Longrightarrow>
    lock_step s (s\<lparr>st_redis := r,
      st_held := (if e = None then insert (lk_key l, lk_value l, st_now s + ttl) (st_held s) else st_held s)\<rparr>)"
| release: "Unlock net (st_now s) l (st_redis s) = (r, e) \<Longrightarrow>
    lock_step s (s\<lparr>st_redis := r,
      st_held := {(k, v, t). (k, v, t) \<in> st_held s \<and> (k, v) \<noteq> (lk_key l, lk_value l)}\<rparr>)"
| extend: "ExtendLock net (st_now s) ext l (st_redis s) = (r, e) \<Longrightarrow>
    lock_step s (s\<lparr>st_redis := r,
      st_held := (if e = None
        then insert (lk_key l, lk_value l, st_now s + Milliseconds ext * 1000000)
               {(k, v, t). (k, v, t) \<in> st_held s \<and> (k, v) \<noteq> (lk_key l, lk_value l)}
        else st_held s)\<rparr>)"

definition backed :: "lock_state \<Rightarrow> bool" where
  "backed s \<longleftrightarrow> (\<forall>(k, v, e) \<in> st_held s. st_now s < e \<longrightarrow>
     (\<exists>x. st_redis s k = Some (v, x) \<and> (case x of None \<Rightarrow> True | Some e' \<Rightarrow> e \<le> e')))"

definition exclusive :: "lock_state \<Rightarrow> bool" where
  "exclusive s \<longleftrightarrow> (\<forall>(k, v, e) \<in> st_held s. \<forall>(k', v', e') \<in> st_held s.
     k = k' \<and> st_now s < e \<and> st_now s < e' \<longrightarrow> v = v')"

lemma backedD:
  assumes "backed s" "(k, v, e) \<in> st_held s" "st_now s < e"
  obtains x where "st_redis s k = Some (v, x)" "case x of None \<Rightarrow> True | Some e' \<Rightarrow> e \<le> e'"
    "live (st_now s) (st_redis s) k = Some v"
proof -
  from assms obtain x where x: "st_redis s k = Some (v, x)" "case x of None \<Rightarrow> True | Some e' \<Rightarrow> e \<le> e'"
    unfolding backed_def by fast
  with assms(3) have "live (st_now s) (st_redis s) k = Some v"
    by (auto simp: live_def split: option.splits)
  with x that show thesis by blast
qed

lemma backedI:
  "(\<And>k v e. (k, v, e) \<in> st_held s \<Longrightarrow> st_now s < e \<Longrightarrow>
      \<exists>x. st_redis s k = Some (v, x) \<and> (case x of None \<Rightarrow> True | Some e' \<Rightarrow> e \<le> e')) \<Longrightarrow> backed s"
  unfolding backed_def by blast

lemma backed_redis:
  "backed s \<Longrightarrow> (k, v, e) \<in> st_held s \<Longrightarrow> st_now s < e \<Longrightarrow>
   \<exists>x. st_redis s k = Some (v, x) \<and> (case x of None \<Rightarrow> True | Some e' \<Rightarrow> e \<le> e')"
  unfolding backed_def by fast

lemma backed_live: "backed s \<Longrightarrow> (k, v, e) \<in> st_held s \<Longrightarrow> st_now s < e \<Longrightarrow> live (st_now s) (st_redis s) k = Some v"
  by (erule backedD) simp_all

lemma backed_exclusive: "backed s \<Longrightarrow> exclusive s"
  unfolding exclusive_def by clarify (metis backed_live option.inject)

lemma backed_step: "lock_step s s' \<Longrightarrow> backed s \<Longrightarrow> backed s'"
proof (induction rule: lock_step.induct)
  case (tick s t)
  then show ?case by (intro backedI) (auto dest: backed_redis)
next
  case (acquire net s ttl l r e)
  from acquire.hyps(1) show ?case
  proof (cases rule: Lock_cases)
    case held
    with acquire show ?thesis by (intro backedI) (auto dest: backed_redis)
  next
    case acquired
    show ?thesis
    proof (rule backedI, goal_cases)
      case (1 k v t)
      then consider "(k, v, t) = (lk_key l, lk_value l, st_now s + ttl)" | "(k, v, t) \<in> st_held s"
        using acquired by auto
      then show ?case
      proof cases
        case 1
        with acquired \<open>0 < ttl\<close> show ?thesis by simp
      next
        case 2
        with 1 acquire.prems have "live (st_now s) (st_redis s) k = Some v" by (simp add: backed_live)
        with acquired have "k \<noteq> lk_key l" by auto
        with 2 1 acquire.prems acquired show ?thesis by (simp add: backed_redis)
      qed
    qed
  qed
next
  case (release net s l r e)
  show ?case
  proof (rule backedI, goal_cases)
    case (1 k v t)
    then have k: "(k, v, t) \<in> st_held s" "(k, v) \<noteq> (lk_key l, lk_value l)" "st_now s < t" by auto
    note old = backed_redis [OF release.prems k(1,3)] backed_live [OF release.prems k(1,3)]
    from release.hyps show ?case
      by (cases rule: Unlock_cases) (use old k(2) in auto)
  qed
next
  case (extend net s ext l r e)
  show ?case
  proof (rule backedI, goal_cases)
    case (1 k v t)
    show ?case
    proof (cases "e = None")
      case False
      with extend 1 have "r = st_redis s" by (auto simp: ExtendLock_def split: option.splits if_splits)
      with False 1 extend.prems show ?thesis by (auto dest: backed_redis)
    next
      case True
      with extend.hyps have own: "live (st_now s) (st_redis s) (lk_key l) = Some (lk_value l)"
        and r: "r = (if 0 < Milliseconds ext
            then (st_redis s)(lk_key l \<mapsto> (lk_value l, Some (st_now s + Milliseconds ext * 1000000)))
            else (st_redis s)(lk_key l := None))"
        by (auto simp: ExtendLock_def split: option.splits if_splits)
      show ?thesis
      proof (cases "(k, v) = (lk_key l, lk_value l)")
        case True
        with \<open>e = None\<close> 1 r show ?thesis by auto
      next
        case False
        with \<open>e = None\<close> 1 have k: "(k, v, t) \<in> st_held s" "st_now s < t" by auto
        have "k \<noteq> lk_key l" using False own backed_live [OF extend.prems k] by auto
        with r backed_redis [OF extend.prems k] show ?thesis by auto
      qed
    qed
  qed
qed

lemma backed_run: "lock_step\<^sup>*\<^sup>* s s' \<Longrightarrow> backed s \<Longrightarrow> backed s'"
  by (induction rule: rtranclp_induct) (auto intro: backed_step)

subsection \<open>Lemmas: several locks\<close>

lemma unique_keys_fold:
  "distinct acc \<Longrightarrow> [] \<notin> set acc \<Longrightarrow>
   distinct (fold (\<lambda>k acc. if k \<noteq> [] \<and> k \<notin> set acc then acc @ [k] else acc) keys acc) \<and>
   set (fold (\<lambda>k acc. if k \<noteq> [] \<and> k \<notin> set acc then acc @ [k] else acc) keys acc) = set acc \<union> (set keys - {[]})"
  by (induction keys arbitrary: acc) auto

lemma unique_keys: "distinct (unique_keys keys)" "set (unique_keys keys) = set keys - {[]}"
  using unique_keys_fold [of "[]" keys] by (auto simp: unique_keys_def)

lemma ml_lockers_New: "ml_lockers (NewMultiLocker keys v) = map (\<lambda>k. NewLocker k v) (sort (unique_keys keys))"
  by (simp add: NewMultiLocker_def Let_def)

lemma rollback_live:
  assumes "\<forall>k. unet k = None"
  shows "distinct ks \<Longrightarrow> \<forall>k \<in> set ks. live now r k = Some v \<Longrightarrow>
    live now (rollback unet now (map (\<lambda>k. NewLocker k v) ks) r) j = (if j \<in> set ks then None else live now r j)"
proof (induction ks arbitrary: r rule: rev_induct)
  case (snoc k ks)
  have "rollback unet now (map (\<lambda>k. NewLocker k v) (ks @ [k])) r =
      rollback unet now (map (\<lambda>k. NewLocker k v) ks) (r(k := None))"
    using snoc.prems assms by (simp add: rollback_def NewLocker_def Unlock_def)
  moreover have "\<forall>k' \<in> set ks. live now (r(k := None)) k' = Some v" using snoc.prems by auto
  ultimately show ?case using snoc by auto
qed (simp add: rollback_def)

text \<open>
  The loop from a state in which the keys \<open>done\<close> are taken: it takes the rest as well, or puts
  the live part of Redis back to what it was.
\<close>

lemma multi_lock_loop_live:
  assumes unet: "\<forall>k. unet k = None" and ttl: "0 < ttl"
  shows "distinct (got @ ks) \<Longrightarrow> \<forall>j. live now r j = (if j \<in> set got then Some v else live now r0 j) \<Longrightarrow>
    \<forall>k \<in> set got. live now r0 k = None \<Longrightarrow>
    multi_lock_loop net unet now ttl (map (\<lambda>k. NewLocker k v) got) (map (\<lambda>k. NewLocker k v) ks) r = (r', e) \<Longrightarrow>
    (e = None \<longrightarrow> (\<forall>k \<in> set (got @ ks). live now r0 k = None) \<and>
       (\<forall>j. live now r' j = (if j \<in> set (got @ ks) then Some v else live now r0 j))) \<and>
    (e \<noteq> None \<longrightarrow> (\<forall>j. live now r' j = live now r0 j))"
proof (induction ks arbitrary: got r)
  case (Cons k ks)
  obtain r1 e1 where lock: "Lock (net k) now ttl (NewLocker k v) r = (r1, e1)" by fastforce
  have key: "lk_key (NewLocker k v) = k" "lk_value (NewLocker k v) = v" by (simp_all add: NewLocker_def)
  from lock show ?case
  proof (cases rule: Lock_cases)
    case held
    then have res: "r' = rollback unet now (map (\<lambda>k. NewLocker k v) got) r" "e \<noteq> None"
      using Cons.prems(4) lock by (auto simp: key)
    have "live now r' j = live now r0 j" for j
      unfolding res(1) using Cons.prems by (subst rollback_live [OF unet]) auto
    with res(2) show ?thesis by auto
  next
    case acquired
    have free: "live now r0 k = None" using Cons.prems acquired(3) by (auto simp: key split: if_splits)
    have "multi_lock_loop net unet now ttl (map (\<lambda>k. NewLocker k v) (got @ [k])) (map (\<lambda>k. NewLocker k v) ks) r1 = (r', e)"
      using Cons.prems(4) lock acquired(1) by (simp add: key)
    moreover have "\<forall>j. live now r1 j = (if j \<in> set (got @ [k]) then Some v else live now r0 j)"
      using Cons.prems(2) acquired(4) ttl by (simp add: key)
    ultimately show ?thesis
      using Cons.IH [of "got @ [k]" r1] Cons.prems free by auto
  qed
qed auto

lemma multi_lock_loop_free:
  assumes "0 < ttl" "\<forall>k. net k = None"
  shows "distinct ks \<Longrightarrow> \<forall>k \<in> set ks. live now r k = None \<Longrightarrow>
    snd (multi_lock_loop net unet now ttl acq (map (\<lambda>k. NewLocker k v) ks) r) = None"
proof (induction ks arbitrary: acq r)
  case (Cons k ks)
  obtain r1 e1 where lock: "Lock None now ttl (NewLocker k v) r = (r1, e1)" by fastforce
  have key: "lk_key (NewLocker k v) = k" by (simp add: NewLocker_def)
  have e1: "e1 = None" using Lock_free [OF lock] Cons.prems by (simp add: key)
  with lock have "\<forall>k' \<in> set ks. live now r1 k' = None"
    using Cons.prems assms(1) by (cases rule: Lock_cases) (auto simp: key)
  with Cons lock e1 assms(2) show ?case by (simp add: key)
qed simp

lemma multi_lock_loop_error:
  assumes "\<forall>k. net k = None"
  shows "multi_lock_loop net unet now ttl acq ls r = (r', Some e) \<Longrightarrow> errors_Is e ErrLockHeld"
  using assms
  by (induction ls arbitrary: acq r) (auto split: prod.splits option.splits dest: Lock_held_error)

subsection \<open>Lemmas: waiting\<close>

lemma jitter_delay_le: "0 < remaining \<Longrightarrow> jitter_delay remaining draw n \<le> remaining"
  by (simp add: jitter_delay_def Let_def)

lemma wait_loop_time:
  "\<forall>n. we_slack env n = 0 \<Longrightarrow> wait_loop acquire c x env deadline n now r = (r', e, t) \<Longrightarrow>
    now \<le> t \<and> t \<le> max now deadline \<and>
    (e = None \<longrightarrow> t < deadline \<and> (\<exists>m r0. acquire (we_net env m) t r0 = (r', None)))"
proof (induction acquire c x env deadline n now r rule: wait_loop.induct)
  case (1 acquire c x env deadline n now r)
  show ?case
  proof (cases "now < deadline")
    case False
    with 1(3) show ?thesis by (auto simp: wait_loop.simps [of acquire c x env deadline n now r])
  next
    case True
    obtain r1 e1 where acq: "acquire (we_net env n) now r = (r1, e1)" by fastforce
    note eq = 1(3) [unfolded wait_loop.simps [of acquire c x env deadline n now r]]
    show ?thesis
    proof (cases e1)
      case None
      with eq acq True show ?thesis by auto
    next
      case (Some err)
      show ?thesis
      proof (cases "errors_Is err ErrLockHeld \<and> we_ctx env n = None")
        case False
        with eq acq True Some show ?thesis by (auto split: if_splits option.splits)
      next
        case retry: True
        let ?now = "now + jitter_delay (deadline - now) (we_draw env n) n + int (we_slack env n)"
        have "wait_loop acquire c x env deadline (Suc n) ?now (we_others env n r1) = (r', e, t)"
          using eq acq True Some retry by simp
        then have "?now \<le> t \<and> t \<le> max ?now deadline \<and>
            (e = None \<longrightarrow> t < deadline \<and> (\<exists>m r0. acquire (we_net env m) t r0 = (r', None)))"
          using "1.IH" [OF True acq [symmetric] Some] retry 1(2) by simp
        moreover have "now < ?now" "?now \<le> deadline"
          using jitter_delay_pos [of "deadline - now" "we_draw env n" n]
            jitter_delay_le [of "deadline - now" "we_draw env n" n] True 1(2) by simp_all
        ultimately show ?thesis by auto
      qed
    qed
  qed
qed

subsection \<open>Properties\<close>

text \<open>
  C20: Mutual exclusion. In every run of clients that acquire, release and extend locks over one
  Redis, with any loss of commands and any passage of time, two grants of one key that are both
  within their time belong to the same lock value.
\<close>

theorem lock_mutual_exclusion:
  assumes "lock_step\<^sup>*\<^sup>* s s'" "st_held s = {}"
  shows "exclusive s'"
  using backed_run [OF assms(1)] assms(2) by (intro backed_exclusive) (simp add: backed_def)

definition ex_lock_start :: lock_state where
  "ex_lock_start = \<lparr>st_now = 0, st_redis = Map.empty, st_held = {}\<rparr>"

definition ex_lock_first :: lock_state where
  "ex_lock_first = \<lparr>st_now = 0, st_redis = [''bln_1'' \<mapsto> (''loc_a'', Some 10)], st_held = {(''bln_1'', ''loc_a'', 10)}\<rparr>"

definition ex_lock_late :: lock_state where
  "ex_lock_late = \<lparr>st_now = 10, st_redis = [''bln_1'' \<mapsto> (''loc_b'', Some 30)],
     st_held = {(''bln_1'', ''loc_b'', 30), (''bln_1'', ''loc_a'', 10)}\<rparr>"

lemma ex_lock_run: "lock_step\<^sup>*\<^sup>* ex_lock_start ex_lock_late"
proof -
  have "Lock None (st_now ex_lock_start) 10 \<lparr>lk_key = ''bln_1'', lk_value = ''loc_a''\<rparr> (st_redis ex_lock_start)
      = (st_redis ex_lock_first, None)"
    by (simp add: Lock_def SetNX_def live_def ex_lock_start_def ex_lock_first_def)
  from lock_step.acquire [OF this] have "lock_step ex_lock_start ex_lock_first"
    by (simp add: ex_lock_start_def ex_lock_first_def)
  moreover have "lock_step ex_lock_first (ex_lock_first\<lparr>st_now := 10\<rparr>)"
    by (rule lock_step.tick) (simp add: ex_lock_first_def)
  moreover have "Lock None (st_now (ex_lock_first\<lparr>st_now := 10\<rparr>)) 20 \<lparr>lk_key = ''bln_1'', lk_value = ''loc_b''\<rparr>
      (st_redis (ex_lock_first\<lparr>st_now := 10\<rparr>)) = (st_redis ex_lock_late, None)"
    by (simp add: Lock_def SetNX_def live_def ex_lock_first_def ex_lock_late_def)
  from lock_step.acquire [OF this] have "lock_step (ex_lock_first\<lparr>st_now := 10\<rparr>) ex_lock_late"
    by (simp add: ex_lock_first_def ex_lock_late_def)
  ultimately show ?thesis by (meson converse_rtranclp_into_rtranclp r_into_rtranclp)
qed

theorem lock_mutual_exclusion_witness: "exclusive ex_lock_late"
  by (rule lock_mutual_exclusion [OF ex_lock_run]) (simp add: ex_lock_start_def)


definition ex_redis :: redis where
  "ex_redis = [''b'' \<mapsto> (''other'', Some 100)]"

lemma ex_multi_held:
  "MultiLock (\<lambda>k. None) (\<lambda>k. None) 5 10 (NewMultiLocker [''b'', [], ''a'', ''b''] ''mine'') ex_redis =
     (ex_redis(''a'' := None),
      Some (errorf_w ''failed to acquire lock for key b'' (lockError ErrLockHeld ''lock for key b is already held'')))"
  by (simp add: MultiLock_def NewMultiLocker_def unique_keys_def NewLocker_def Lock_def SetNX_def live_def ex_redis_def
      rollback_def Unlock_def Let_def)


text \<open>
  C22: Lock ordering. The keys a \<open>MultiLocker\<close> acquires, in order, are the non-empty keys it was
  given in strictly increasing order; two callers acquire the same keys in the same order exactly
  when they name the same set of non-empty keys, in whatever order and however often.
\<close>

theorem NewMultiLocker_canonical:
  "set (ml_keys (NewMultiLocker keys v)) = set keys - {[]}
   \<and> sorted_wrt (<) (ml_keys (NewMultiLocker keys v))
   \<and> map lk_key (ml_lockers (NewMultiLocker keys v)) = ml_keys (NewMultiLocker keys v)
   \<and> ((set keys' - {[]} = set keys - {[]}) = (ml_keys (NewMultiLocker keys' v') = ml_keys (NewMultiLocker keys v)))"
proof -
  have s: "set (ml_keys (NewMultiLocker ks w)) = set ks - {[]}" for ks w
    using unique_keys(2) by (simp add: NewMultiLocker_def Let_def)
  have o: "sorted_wrt (<) (ml_keys (NewMultiLocker ks w))" for ks w
    using unique_keys(1) [of ks] by (simp add: NewMultiLocker_def Let_def strict_sorted_iff)
  have "ml_keys (NewMultiLocker keys' v') = ml_keys (NewMultiLocker keys v)" if "set keys' - {[]} = set keys - {[]}"
    using strict_sorted_equal [OF o o] s that by simp
  moreover have "map lk_key (ml_lockers (NewMultiLocker keys v)) = ml_keys (NewMultiLocker keys v)"
    by (simp add: NewMultiLocker_def Let_def NewLocker_def comp_def)
  moreover have "set keys' - {[]} = set keys - {[]}"
    if "ml_keys (NewMultiLocker keys' v') = ml_keys (NewMultiLocker keys v)"
    using s [of keys v] s [of keys' v'] that by simp
  ultimately show ?thesis using s [of keys v] o [of keys v] by blast
qed


definition ex_wait_env :: wait_env where
  "ex_wait_env = \<lparr>we_net = (\<lambda>n. None), we_draw = (\<lambda>n. 3000000), we_others = (\<lambda>n r. if n = 1 then Map.empty else r),
     we_slack = (\<lambda>n. 0), we_ctx = (\<lambda>n. None)\<rparr>"

lemma ex_wait:
  "WaitLock ex_wait_env None 0 50 20000000 \<lparr>lk_key = ''k'', lk_value = ''me''\<rparr> [''k'' \<mapsto> (''other'', None)] =
     ([''k'' \<mapsto> (''me'', Some 6000050)], None, 6000000)"
  by (simp add: WaitLock_def wait_loop.simps ex_wait_env_def Lock_def SetNX_def live_def lockError_def ErrLockHeld_def
      jitter_delay_def backoff_def lockBackoffBase_def lockBackoffMax_def Let_def)


end
