(* ===== verification/Hot_Pairs.thy ===== *)
theory Hot_Pairs
  imports Redlock Exec_Controls
begin

section \<open>Hot pairs: routing to the hot lane (internal/hotpairs)\<close>

text \<open>
  A source and destination whose transactions contend for locks is promoted to a queue lane of
  its own and demoted again when the contention is over. The pair's state, its recent activity
  and its contention count are Redis keys with a time to live; the routing decision also counts
  the queued transactions of the pair in each lane. The theory models the manager and the router
  and shows that, as long as the pair's state does not expire and Redis answers, transactions of
  one pair are never pending in both lanes.

  \<open>net\<close> gives the client's error for a Redis command, by the command's name; a command or
  pipeline that fails has no effect. A nil \<open>*Manager\<close> is \<^const>\<open>None\<close>.
\<close>

definition StateNormal :: string where "StateNormal = ''normal''"
definition StatePromoting :: string where "StatePromoting = ''promoting''"
definition StateHot :: string where "StateHot = ''hot''"
definition StateCoolingDown :: string where "StateCoolingDown = ''cooling_down''"

definition LaneNormal :: string where "LaneNormal = ''normal''"
definition LaneHot :: string where "LaneHot = ''hot''"
definition QueueLaneMetaKey :: string where "QueueLaneMetaKey = ''queue_lane''"
definition QueuePairMetaKey :: string where "QueuePairMetaKey = ''queue_pair_key''"

lemmas hot_names = StateNormal_def StatePromoting_def StateHot_def StateCoolingDown_def LaneNormal_def LaneHot_def

record Config =
  cf_Enabled :: bool
  cf_HotQueueName :: string
  cf_HotPairTTL :: int
  cf_LockContentionThreshold :: int

record Manager =
  mg_enabled :: bool
  mg_hotQueue :: string
  mg_pairTTL :: int
  mg_threshold :: int

text \<open>\<open>client\<close> says whether the Redis client is there (not nil).\<close>

definition NewManager :: "bool \<Rightarrow> Config \<Rightarrow> Manager" where
  "NewManager client cfg = \<lparr>
     mg_enabled = (cf_Enabled cfg \<and> client),
     mg_hotQueue = (if cf_HotQueueName cfg = [] then ''hot_transactions'' else cf_HotQueueName cfg),
     mg_pairTTL = (if cf_HotPairTTL cfg \<le> 0 then 300 * 10 ^ 9 else cf_HotPairTTL cfg),
     mg_threshold = (if cf_LockContentionThreshold cfg \<le> 0 then 3 else cf_LockContentionThreshold cfg)\<rparr>"

definition Enabled :: "Manager option \<Rightarrow> bool" where
  "Enabled m = (case m of None \<Rightarrow> False | Some mg \<Rightarrow> mg_enabled mg)"

definition HotQueueName :: "Manager option \<Rightarrow> string" where
  "HotQueueName m = (case m of
       None \<Rightarrow> ''hot_transactions''
     | Some mg \<Rightarrow> if mg_hotQueue mg = [] then ''hot_transactions'' else mg_hotQueue mg)"

definition PairKey :: "string \<Rightarrow> string \<Rightarrow> string \<Rightarrow> string" where
  "PairKey source destination currency = source @ ''|'' @ destination @ ''|'' @ ToUpper currency"

definition stateKey :: "string \<Rightarrow> string" where
  "stateKey pairKey = ''ledgerforge:hot_pairs:state:'' @ pairKey"

definition activityKey :: "string \<Rightarrow> string" where
  "activityKey pairKey = ''ledgerforge:hot_pairs:activity:'' @ pairKey"

definition contentionKey :: "string \<Rightarrow> string" where
  "contentionKey pairKey = ''ledgerforge:hot_pairs:contention:'' @ pairKey"

definition stateTTL :: "Manager \<Rightarrow> int" where
  "stateTTL mg = mg_pairTTL mg * 4"

type_synonym net = "string \<Rightarrow> go_error option"

subsection \<open>Redis commands\<close>

definition redis_set :: "time \<Rightarrow> string \<Rightarrow> string \<Rightarrow> int \<Rightarrow> redis \<Rightarrow> redis" where
  "redis_set now k v ttl r = r(k \<mapsto> (v, if ttl = 0 then None else Some (now + ttl)))"

text \<open>\<open>EXPIRE\<close> does nothing to a key that is not there; a time to live that is not positive deletes.\<close>

definition redis_expire :: "time \<Rightarrow> string \<Rightarrow> int \<Rightarrow> redis \<Rightarrow> redis" where
  "redis_expire now k ttl r = (case live now r k of
       None \<Rightarrow> r
     | Some v \<Rightarrow> if 0 < ttl then r(k \<mapsto> (v, Some (now + ttl))) else r(k := None))"

text \<open>\<open>INCR\<close>: the new count, and Redis with it; a missing key counts from zero and keeps no expiry.\<close>

definition redis_incr :: "time \<Rightarrow> string \<Rightarrow> redis \<Rightarrow> (redis \<times> int) option" where
  "redis_incr now k r = (case live now r k of
       None \<Rightarrow> Some (r(k \<mapsto> (show_int 1, None)), 1)
     | Some v \<Rightarrow> (case SetString v of
           None \<Rightarrow> None
         | Some n \<Rightarrow> Some (r(k \<mapsto> (show_int (n + 1), (case r k of None \<Rightarrow> None | Some (_, e) \<Rightarrow> e))), n + 1)))"

subsection \<open>Manager operations\<close>

definition GetState :: "net \<Rightarrow> Manager \<Rightarrow> time \<Rightarrow> string \<Rightarrow> redis \<Rightarrow> string \<times> go_error option" where
  "GetState net mg now pairKey r =
     (if \<not> mg_enabled mg then (StateNormal, None)
      else case net ''GET'' of
        Some e \<Rightarrow> (StateNormal, Some e)
      | None \<Rightarrow> (case live now r (stateKey pairKey) of
            None \<Rightarrow> (StateNormal, None)
          | Some s \<Rightarrow> (if s \<in> {StatePromoting, StateHot, StateCoolingDown} then s else StateNormal, None)))"

definition setState :: "net \<Rightarrow> Manager \<Rightarrow> time \<Rightarrow> string \<Rightarrow> string \<Rightarrow> redis \<Rightarrow> redis \<times> go_error option" where
  "setState net mg now pairKey s r = (case net ''SET'' of
       Some e \<Rightarrow> (r, Some e)
     | None \<Rightarrow> (redis_set now (stateKey pairKey) s (stateTTL mg) r, None))"

definition HasRecentContention :: "net \<Rightarrow> Manager \<Rightarrow> time \<Rightarrow> string \<Rightarrow> redis \<Rightarrow> bool \<times> go_error option" where
  "HasRecentContention net mg now pairKey r =
     (if \<not> mg_enabled mg then (False, None)
      else case net ''EXISTS'' of
        Some e \<Rightarrow> (False, Some e)
      | None \<Rightarrow> (live now r (activityKey pairKey) \<noteq> None, None))"

definition ActivateHot :: "net \<Rightarrow> Manager \<Rightarrow> time \<Rightarrow> string \<Rightarrow> redis \<Rightarrow> redis \<times> go_error option" where
  "ActivateHot net mg now pairKey r =
     (if \<not> mg_enabled mg then (r, None)
      else case net ''EXEC'' of
        Some e \<Rightarrow> (r, Some e)
      | None \<Rightarrow> (redis_set now (activityKey pairKey) ''1'' (mg_pairTTL mg)
                   (redis_set now (stateKey pairKey) StateHot (stateTTL mg) r), None))"

definition StartCoolingDown :: "net \<Rightarrow> Manager \<Rightarrow> time \<Rightarrow> string \<Rightarrow> redis \<Rightarrow> redis \<times> go_error option" where
  "StartCoolingDown net mg now pairKey r =
     (if \<not> mg_enabled mg then (r, None) else setState net mg now pairKey StateCoolingDown r)"

definition SetNormal :: "net \<Rightarrow> Manager \<Rightarrow> string \<Rightarrow> redis \<Rightarrow> redis \<times> go_error option" where
  "SetNormal net mg pairKey r =
     (if \<not> mg_enabled mg then (r, None)
      else case net ''EXEC'' of
        Some e \<Rightarrow> (r, Some e)
      | None \<Rightarrow> (r(stateKey pairKey := None, activityKey pairKey := None, contentionKey pairKey := None), None))"

text \<open>
  \<open>Manager.RecordContention\<close>: the count, whether the pair is now promoting, and the error. A
  count that is not a number fails the pipeline, but not the commands after it.
\<close>

definition RecordContention ::
  "net \<Rightarrow> Manager \<Rightarrow> time \<Rightarrow> string \<Rightarrow> redis \<Rightarrow> redis \<times> int \<times> bool \<times> go_error option"
where
  "RecordContention net mg now pairKey r =
     (if \<not> mg_enabled mg then (r, 0, False, None)
      else case net ''EXEC'' of
        Some e \<Rightarrow> (r, 0, False, Some e)
      | None \<Rightarrow> (case redis_incr now (contentionKey pairKey) r of
            None \<Rightarrow> (redis_set now (activityKey pairKey) ''1'' (mg_pairTTL mg)
                        (redis_expire now (contentionKey pairKey) (mg_pairTTL mg) r),
                      0, False, Some (ErrorString ''ERR value is not an integer or out of range''))
          | Some (r1, current) \<Rightarrow>
              let r2 = redis_set now (activityKey pairKey) ''1'' (mg_pairTTL mg)
                         (redis_expire now (contentionKey pairKey) (mg_pairTTL mg) r1)
              in if current < mg_threshold mg then (r2, current, False, None)
                 else case GetState net mg now pairKey r2 of
                     (s, Some e) \<Rightarrow> (r2, current, False, Some e)
                   | (s, None) \<Rightarrow>
                       if s \<in> {StateHot, StateCoolingDown, StatePromoting}
                       then (case net ''EXPIRE'' of
                             Some e \<Rightarrow> r2
                           | None \<Rightarrow> redis_expire now (stateKey pairKey) (stateTTL mg) r2,
                           current, s = StatePromoting, None)
                       else (case setState net mg now pairKey StatePromoting r2 of
                             (r3, Some e) \<Rightarrow> (r3, current, False, Some e)
                           | (r3, None) \<Rightarrow> (r3, current, True, None))))"

subsection \<open>Router\<close>

text \<open>The store's count of queued transactions of the pair in a lane; a nil counter counts none.\<close>

definition pendingQueuedTransactionsForPairLane ::
  "(string \<Rightarrow> string \<Rightarrow> string \<Rightarrow> string \<Rightarrow> go_error + int) option \<Rightarrow> string \<Rightarrow> string \<Rightarrow> string \<Rightarrow> string \<Rightarrow> go_error + int"
where
  "pendingQueuedTransactionsForPairLane counter source destination currency lane =
     (case counter of None \<Rightarrow> Inr 0 | Some c \<Rightarrow> c source destination currency lane)"

definition ResolveQueueLane ::
  "net \<Rightarrow> time \<Rightarrow> Manager option \<Rightarrow> (string \<Rightarrow> string \<Rightarrow> string \<Rightarrow> string \<Rightarrow> go_error + int) option \<Rightarrow>
   string \<Rightarrow> string \<Rightarrow> string \<Rightarrow> redis \<Rightarrow> redis \<times> string \<times> go_error option"
where
  "ResolveQueueLane net now manager counter source destination currency r = (case manager of
       None \<Rightarrow> (r, LaneNormal, None)
     | Some mg \<Rightarrow>
         if \<not> mg_enabled mg then (r, LaneNormal, None)
         else let pairKey = PairKey source destination currency;
                  pending = pendingQueuedTransactionsForPairLane counter source destination currency
           in case GetState net mg now pairKey r of
             (s, Some e) \<Rightarrow> (r, LaneNormal, Some e)
           | (s, None) \<Rightarrow>
               if s = StatePromoting
               then (case pending LaneNormal of
                   Inl e \<Rightarrow> (r, LaneNormal, Some e)
                 | Inr n \<Rightarrow>
                     if n = 0
                     then (case ActivateHot net mg now pairKey r of
                         (r', Some e) \<Rightarrow> (r', LaneNormal, Some e)
                       | (r', None) \<Rightarrow> (r', LaneHot, None))
                     else (r, LaneNormal, None))
               else if s = StateHot
               then (case HasRecentContention net mg now pairKey r of
                   (active, Some e) \<Rightarrow> (r, LaneNormal, Some e)
                 | (active, None) \<Rightarrow>
                     if active then (r, LaneHot, None)
                     else (case pending LaneHot of
                         Inl e \<Rightarrow> (r, LaneNormal, Some e)
                       | Inr n \<Rightarrow>
                           if 0 < n
                           then (case StartCoolingDown net mg now pairKey r of
                               (r', Some e) \<Rightarrow> (r', LaneNormal, Some e)
                             | (r', None) \<Rightarrow> (r', LaneHot, None))
                           else (case SetNormal net mg pairKey r of
                               (r', Some e) \<Rightarrow> (r', LaneNormal, Some e)
                             | (r', None) \<Rightarrow> (r', LaneNormal, None))))
               else if s = StateCoolingDown
               then (case pending LaneHot of
                   Inl e \<Rightarrow> (r, LaneNormal, Some e)
                 | Inr n \<Rightarrow>
                     if 0 < n then (r, LaneHot, None)
                     else (case SetNormal net mg pairKey r of
                         (r', Some e) \<Rightarrow> (r', LaneNormal, Some e)
                       | (r', None) \<Rightarrow> (r', LaneNormal, None)))
               else (r, LaneNormal, None))"

definition PairKeyForTransaction :: "Manager option \<Rightarrow> Transaction option \<Rightarrow> string" where
  "PairKeyForTransaction manager txnp = (case (txnp, manager) of
       (Some txn, Some mg) \<Rightarrow>
         if tx_Source txn = [] \<or> tx_Destination txn = [] \<or> tx_Currency txn = [] then []
         else PairKey (tx_Source txn) (tx_Destination txn) (tx_Currency txn)
     | _ \<Rightarrow> [])"

definition AssignQueueLane ::
  "net \<Rightarrow> time \<Rightarrow> Manager option \<Rightarrow> (string \<Rightarrow> string \<Rightarrow> string \<Rightarrow> string \<Rightarrow> go_error + int) option \<Rightarrow>
   Transaction option \<Rightarrow> redis \<Rightarrow> redis \<times> Transaction option"
where
  "AssignQueueLane net now manager counter txnp r = (case txnp of
       None \<Rightarrow> (r, None)
     | Some txn \<Rightarrow>
         let meta = (case tx_MetaData txn of None \<Rightarrow> [] | Some m \<Rightarrow> m);
             pairKey = PairKeyForTransaction manager txnp
         in if pairKey = []
            then (r, Some (txn\<lparr>tx_QueueLane := LaneNormal,
                               tx_MetaData := Some (AList.update QueueLaneMetaKey (JStr LaneNormal) meta)\<rparr>))
            else case ResolveQueueLane net now manager counter (tx_Source txn) (tx_Destination txn) (tx_Currency txn) r of
                (r', resolved, e) \<Rightarrow>
                  let lane = (if e = None then resolved else LaneNormal)
                  in (r', Some (txn\<lparr>tx_QueueLane := lane,
                       tx_MetaData := Some (AList.update QueueLaneMetaKey (JStr lane)
                                             (AList.update QueuePairMetaKey (JStr pairKey) meta))\<rparr>)))"

definition QueueLaneFromMetadata :: "metadata option \<Rightarrow> string" where
  "QueueLaneFromMetadata meta = (case meta_get meta QueueLaneMetaKey of
       Some (JStr lane) \<Rightarrow> if lane = LaneHot then LaneHot else LaneNormal
     | _ \<Rightarrow> LaneNormal)"

definition ContextCanceled :: go_error where "ContextCanceled = ErrorString ''context canceled''"
definition ContextDeadlineExceeded :: go_error where "ContextDeadlineExceeded = ErrorString ''context deadline exceeded''"

definition IsLockContentionError :: "go_error option \<Rightarrow> bool" where
  "IsLockContentionError err = (case err of
       None \<Rightarrow> False
     | Some e \<Rightarrow>
         if errors_Is e ErrLockHeld \<or> errors_Is e ErrLockWaitTimeout then True
         else if errors_Is e ContextCanceled \<or> errors_Is e ContextDeadlineExceeded then False
         else let msg = ToLower (Error e)
           in Contains msg ''already held'' \<or> Contains msg ''failed to acquire lock''
              \<or> Contains msg ''failed to acquire batch lock'')"

text \<open>The router's \<open>RecordContention\<close>; its error is logged and dropped.\<close>

definition RecordPairContention ::
  "net \<Rightarrow> time \<Rightarrow> Manager option \<Rightarrow> string \<Rightarrow> string \<Rightarrow> string \<Rightarrow> go_error option \<Rightarrow> redis \<Rightarrow> redis"
where
  "RecordPairContention net now manager source destination currency err r =
     (if \<not> IsLockContentionError err then r
      else case manager of
        None \<Rightarrow> r
      | Some mg \<Rightarrow>
          if \<not> mg_enabled mg \<or> source = [] \<or> destination = [] \<or> currency = [] then r
          else fst (RecordContention net mg now (PairKey source destination currency) r))"

subsection \<open>Lemmas: the state of a pair\<close>

definition pair_state :: "time \<Rightarrow> redis \<Rightarrow> string \<Rightarrow> string" where
  "pair_state now r pairKey = (case live now r (stateKey pairKey) of
       None \<Rightarrow> StateNormal
     | Some s \<Rightarrow> if s \<in> {StatePromoting, StateHot, StateCoolingDown} then s else StateNormal)"

lemma keys_distinct [simp]:
  "stateKey p \<noteq> activityKey q" "activityKey q \<noteq> stateKey p"
  "stateKey p \<noteq> contentionKey q" "contentionKey q \<noteq> stateKey p"
  "activityKey p \<noteq> contentionKey q" "contentionKey q \<noteq> activityKey p"
  by (simp_all add: stateKey_def activityKey_def contentionKey_def)

lemma live_redis_set [simp]:
  "0 < ttl \<Longrightarrow> live now (redis_set now k v ttl r) j = (if j = k then Some v else live now r j)"
  by (simp add: redis_set_def)

lemma live_redis_expire [simp]: "0 < ttl \<Longrightarrow> live now (redis_expire now k ttl r) j = live now r j"
  by (auto simp: redis_expire_def split: option.splits)

lemma live_redis_incr: "redis_incr now k r = Some (r', n) \<Longrightarrow> j \<noteq> k \<Longrightarrow> live now r' j = live now r j"
  by (auto simp: redis_incr_def live_def split: option.splits)

lemma GetState_pair_state:
  "mg_enabled mg \<Longrightarrow> GetState (\<lambda>c. None) mg now pairKey r = (pair_state now r pairKey, None)"
  by (simp add: GetState_def pair_state_def split: option.splits)

lemma pair_state_cases:
  "pair_state now r pairKey \<in> {StateNormal, StatePromoting, StateHot, StateCoolingDown}"
  by (auto simp: pair_state_def split: option.splits)

lemma pair_state_cong: "live now r' (stateKey p) = live now r (stateKey p) \<Longrightarrow> pair_state now r' p = pair_state now r p"
  by (simp add: pair_state_def)

lemma pair_state_set [simp]:
  "0 < ttl \<Longrightarrow> s \<in> {StatePromoting, StateHot, StateCoolingDown} \<Longrightarrow>
   pair_state now (redis_set now (stateKey p) s ttl r) p = s"
  by (auto simp: pair_state_def)

lemma states_distinct [simp]:
  "StateNormal \<noteq> StatePromoting" "StateNormal \<noteq> StateHot" "StateNormal \<noteq> StateCoolingDown"
  "StatePromoting \<noteq> StateNormal" "StatePromoting \<noteq> StateHot" "StatePromoting \<noteq> StateCoolingDown"
  "StateHot \<noteq> StateNormal" "StateHot \<noteq> StatePromoting" "StateHot \<noteq> StateCoolingDown"
  "StateCoolingDown \<noteq> StateNormal" "StateCoolingDown \<noteq> StatePromoting" "StateCoolingDown \<noteq> StateHot"
  "LaneNormal \<noteq> LaneHot" "LaneHot \<noteq> LaneNormal"
  by (simp_all add: hot_names)

lemma RecordContention_state:
  assumes "mg_enabled mg" "0 < mg_pairTTL mg" "RecordContention (\<lambda>c. None) mg now p r = (r', n, promoted, e)"
  shows "pair_state now r' p = pair_state now r p \<or>
    (pair_state now r p = StateNormal \<and> pair_state now r' p = StatePromoting)"
proof (cases "redis_incr now (contentionKey p) r")
  case None
  with assms have "r' = redis_set now (activityKey p) ''1'' (mg_pairTTL mg) (redis_expire now (contentionKey p) (mg_pairTTL mg) r)"
    by (simp add: RecordContention_def)
  with assms(2) show ?thesis by (intro disjI1 pair_state_cong) simp
next
  case (Some q)
  obtain r1 current where q: "q = (r1, current)" by fastforce
  define r2 where "r2 = redis_set now (activityKey p) ''1'' (mg_pairTTL mg) (redis_expire now (contentionKey p) (mg_pairTTL mg) r1)"
  have same: "pair_state now r2 p = pair_state now r p"
    using assms(2) Some q live_redis_incr [of now "contentionKey p" r r1 current "stateKey p"]
    by (intro pair_state_cong) (simp add: r2_def)
  have ttl: "0 < stateTTL mg" using assms(2) by (simp add: stateTTL_def)
  have "r' = r2 \<or> r' = redis_expire now (stateKey p) (stateTTL mg) r2 \<or>
      (pair_state now r2 p = StateNormal \<and> r' = redis_set now (stateKey p) StatePromoting (stateTTL mg) r2)"
  proof (cases "current < mg_threshold mg")
    case True
    with assms(1,3) Some q show ?thesis by (simp add: RecordContention_def r2_def [symmetric] Let_def)
  next
    case False
    note run = assms(3) [unfolded RecordContention_def, simplified, unfolded Some q, simplified, folded r2_def]
    show ?thesis
    proof (cases "pair_state now r2 p \<in> {StateHot, StateCoolingDown, StatePromoting}")
      case True
      with run assms(1) False show ?thesis by (simp add: GetState_pair_state Let_def r2_def [symmetric])
    next
      case other: False
      with pair_state_cases [of now r2 p] have "pair_state now r2 p = StateNormal" by blast
      with run assms(1) False show ?thesis by (simp add: GetState_pair_state Let_def setState_def r2_def [symmetric])
    qed
  qed
  moreover have "pair_state now (redis_expire now (stateKey p) (stateTTL mg) r2) p = pair_state now r2 p"
    using ttl by (intro pair_state_cong) simp
  moreover have "pair_state now (redis_set now (stateKey p) StatePromoting (stateTTL mg) r2) p = StatePromoting"
    using ttl by simp
  ultimately show ?thesis using same by metis
qed

text \<open>The routing decision by the pair's state, with the pair's state after it.\<close>

abbreviation lane_counter :: "nat \<Rightarrow> nat \<Rightarrow> (string \<Rightarrow> string \<Rightarrow> string \<Rightarrow> string \<Rightarrow> go_error + int) option" where
  "lane_counter normal hot \<equiv> Some (\<lambda>s d c lane. Inr (int (if lane = LaneNormal then normal else hot)))"

lemma ResolveQueueLane_state:
  assumes "mg_enabled mg" "0 < mg_pairTTL mg"
    and "ResolveQueueLane (\<lambda>c. None) now (Some mg) (lane_counter normal hot) src dst cur r = (r', lane, e)"
  defines "p \<equiv> PairKey src dst cur"
  shows "e = None \<and>
    (lane = LaneNormal \<and> pair_state now r p \<in> {StateNormal, StatePromoting} \<and> pair_state now r' p = pair_state now r p
     \<or> lane = LaneNormal \<and> pair_state now r p \<in> {StateHot, StateCoolingDown} \<and> hot = 0 \<and> pair_state now r' p = StateNormal
     \<or> lane = LaneHot \<and> pair_state now r p = StatePromoting \<and> normal = 0 \<and> pair_state now r' p = StateHot
     \<or> lane = LaneHot \<and> pair_state now r p \<in> {StateHot, StateCoolingDown} \<and> pair_state now r' p \<in> {StateHot, StateCoolingDown})"
proof -
  have ttl: "0 < stateTTL mg" using assms(2) by (simp add: stateTTL_def)
  have norm: "pair_state now (r(stateKey p := None, activityKey p := None, contentionKey p := None)) p = StateNormal"
    by (simp add: pair_state_def)
  have act: "pair_state now (redis_set now (activityKey p) ''1'' (mg_pairTTL mg)
      (redis_set now (stateKey p) StateHot (stateTTL mg) r)) p = StateHot"
    using assms(2) ttl by (simp add: pair_state_def)
  note defs = ResolveQueueLane_def pendingQueuedTransactionsForPairLane_def ActivateHot_def StartCoolingDown_def
    setState_def SetNormal_def HasRecentContention_def Let_def
  note run = assms(3) [unfolded defs, simplified, folded p_def]
  from pair_state_cases [of now r p] consider "pair_state now r p = StateNormal" | "pair_state now r p = StatePromoting"
    | "pair_state now r p = StateHot" | "pair_state now r p = StateCoolingDown" by blast
  then show ?thesis
    by cases (use run assms(1) norm act ttl in \<open>auto simp: GetState_pair_state split: if_splits\<close>)
qed

subsection \<open>The lanes of one pair over time\<close>

text \<open>
  The clock, Redis, and the number of the pair's transactions queued in each lane. A transaction
  joins the lane the router resolves and leaves it when a worker has processed it; workers record
  contention; time passes as far as the pair's state does not expire.
\<close>

record lane_state =
  la_now :: time
  la_redis :: redis
  la_normal :: nat
  la_hot :: nat

inductive lane_step :: "Manager \<Rightarrow> string \<Rightarrow> string \<Rightarrow> string \<Rightarrow> lane_state \<Rightarrow> lane_state \<Rightarrow> bool"
  for mg src dst cur where
  enqueue: "ResolveQueueLane (\<lambda>c. None) (la_now s) (Some mg) (lane_counter (la_normal s) (la_hot s)) src dst cur (la_redis s)
      = (r, lane, e) \<Longrightarrow>
    lane_step mg src dst cur s (s\<lparr>la_redis := r,
      la_normal := la_normal s + (if lane = LaneNormal then 1 else 0),
      la_hot := la_hot s + (if lane = LaneHot then 1 else 0)\<rparr>)"
| work_normal: "0 < la_normal s \<Longrightarrow> lane_step mg src dst cur s (s\<lparr>la_normal := la_normal s - 1\<rparr>)"
| work_hot: "0 < la_hot s \<Longrightarrow> lane_step mg src dst cur s (s\<lparr>la_hot := la_hot s - 1\<rparr>)"
| contention: "RecordContention (\<lambda>c. None) mg (la_now s) (PairKey src dst cur) (la_redis s) = (r, n, promoted, e) \<Longrightarrow>
    lane_step mg src dst cur s (s\<lparr>la_redis := r\<rparr>)"
| tick: "la_now s \<le> t \<Longrightarrow>
    live t (la_redis s) (stateKey (PairKey src dst cur)) = live (la_now s) (la_redis s) (stateKey (PairKey src dst cur)) \<Longrightarrow>
    lane_step mg src dst cur s (s\<lparr>la_now := t\<rparr>)"

definition lanes_ok :: "string \<Rightarrow> lane_state \<Rightarrow> bool" where
  "lanes_ok p s \<longleftrightarrow> (if pair_state (la_now s) (la_redis s) p \<in> {StateHot, StateCoolingDown} then la_normal s = 0 else la_hot s = 0)"

lemma lanes_ok_step:
  assumes mg: "mg_enabled mg" "0 < mg_pairTTL mg"
  shows "lane_step mg src dst cur s s' \<Longrightarrow> lanes_ok (PairKey src dst cur) s \<Longrightarrow> lanes_ok (PairKey src dst cur) s'"
proof (induction rule: lane_step.induct)
  case (enqueue s r lane e)
  from ResolveQueueLane_state [OF mg enqueue.hyps] enqueue.prems show ?case
    by (elim conjE disjE) (auto simp: lanes_ok_def split: if_splits)
next
  case (contention s r n promoted e)
  from RecordContention_state [OF mg contention.hyps] contention.prems show ?case
    by (elim disjE conjE) (auto simp: lanes_ok_def split: if_splits)
next
  case (tick s t)
  then show ?case by (simp add: lanes_ok_def pair_state_def)
qed (auto simp: lanes_ok_def split: if_splits)

lemma lanes_ok_run:
  assumes mg: "mg_enabled mg" "0 < mg_pairTTL mg"
  shows "(lane_step mg src dst cur)\<^sup>*\<^sup>* s s' \<Longrightarrow> lanes_ok (PairKey src dst cur) s \<Longrightarrow> lanes_ok (PairKey src dst cur) s'"
  by (induction rule: rtranclp_induct) (auto intro: lanes_ok_step [OF mg])

subsection \<open>Properties\<close>


definition ex_cfg :: Config where
  "ex_cfg = \<lparr>cf_Enabled = True, cf_HotQueueName = [], cf_HotPairTTL = 0, cf_LockContentionThreshold = 1\<rparr>"

definition ex_lane_start :: lane_state where
  "ex_lane_start = \<lparr>la_now = 0, la_redis = Map.empty, la_normal = 0, la_hot = 0\<rparr>"

definition ex_lane_hot :: lane_state where
  "ex_lane_hot =
     (let (r1, _) = RecordContention (\<lambda>c. None) (NewManager True ex_cfg) 0 (PairKey ''a'' ''b'' ''usd'') Map.empty;
          (r2, _) = ResolveQueueLane (\<lambda>c. None) 0 (Some (NewManager True ex_cfg)) (lane_counter 0 0) ''a'' ''b'' ''usd'' r1
      in \<lparr>la_now = 0, la_redis = r2, la_normal = 0, la_hot = 1\<rparr>)"

lemma ex_lane_run: "(lane_step (NewManager True ex_cfg) ''a'' ''b'' ''usd'')\<^sup>*\<^sup>* ex_lane_start ex_lane_hot"
proof -
  let ?m = "NewManager True ex_cfg" and ?p = "PairKey ''a'' ''b'' ''usd''"
  have m: "?m = \<lparr>mg_enabled = True, mg_hotQueue = ''hot_transactions'', mg_pairTTL = 300000000000, mg_threshold = 1\<rparr>"
    by (simp add: NewManager_def ex_cfg_def)
  obtain r1 n promoted e where rec: "RecordContention (\<lambda>c. None) ?m 0 ?p Map.empty = (r1, n, promoted, e)"
    by (metis prod_cases4)
  obtain r2 lane e2 where res: "ResolveQueueLane (\<lambda>c. None) 0 (Some ?m) (lane_counter 0 0) ''a'' ''b'' ''usd'' r1 = (r2, lane, e2)"
    by (metis prod_cases3)
  have "pair_state 0 r1 ?p = StatePromoting"
    using rec by (auto simp: RecordContention_def m redis_incr_def live_def GetState_def setState_def redis_expire_def
        Let_def pair_state_def redis_set_def stateTTL_def)
  then have lane: "lane = LaneHot"
    using res by (auto simp: ResolveQueueLane_def m GetState_pair_state Let_def ActivateHot_def
        pendingQueuedTransactionsForPairLane_def)
  have first: "lane_step ?m ''a'' ''b'' ''usd'' ex_lane_start (ex_lane_start\<lparr>la_redis := r1\<rparr>)"
    by (rule lane_step.contention) (simp add: ex_lane_start_def rec)
  have second: "lane_step ?m ''a'' ''b'' ''usd'' (ex_lane_start\<lparr>la_redis := r1\<rparr>) ((ex_lane_start\<lparr>la_redis := r1\<rparr>)\<lparr>la_redis := r2,
      la_normal := la_normal (ex_lane_start\<lparr>la_redis := r1\<rparr>) + (if lane = LaneNormal then 1 else 0),
      la_hot := la_hot (ex_lane_start\<lparr>la_redis := r1\<rparr>) + (if lane = LaneHot then 1 else 0)\<rparr>)"
    by (rule lane_step.enqueue [where e = e2]) (use res in \<open>simp add: ex_lane_start_def cong: if_cong\<close>)
  have goal: "(ex_lane_start\<lparr>la_redis := r1\<rparr>)\<lparr>la_redis := r2,
      la_normal := la_normal (ex_lane_start\<lparr>la_redis := r1\<rparr>) + (if lane = LaneNormal then 1 else 0),
      la_hot := la_hot (ex_lane_start\<lparr>la_redis := r1\<rparr>) + (if lane = LaneHot then 1 else 0)\<rparr> = ex_lane_hot"
    using rec res lane by (simp add: ex_lane_hot_def ex_lane_start_def)
  show ?thesis
    by (rule rtranclp.rtrancl_into_rtrancl, rule r_into_rtranclp, rule first, rule second [unfolded goal])
qed




end
