(* ===== verification/Spec2Isabelle.thy ===== *)
theory Spec2Isabelle
  imports Splits Chain_Store Policy_Store Lineage Hot_Pairs
begin

text \<open>
  A verification of the ledgerforge ledger engine.
\<close>

end
